theory Spec2Isabelle
  imports Complex_Main "HOL-Library.Multiset"
begin

section \<open>Fidelity estimation for cross-entropy benchmarking\<close>

text \<open>
  A shallow embedding of \<^verbatim>\<open>cirq/experiments/fidelity_estimation.py\<close>.

  Conventions of the embedding:
  \<^item> a Python \<^verbatim>\<open>float\<close> is a \<^typ>\<open>real\<close> (exact arithmetic: rounding is outside the
    model), and where numpy yields NaN or an infinity the value is \<open>None\<close>; a Python
    \<^verbatim>\<open>int\<close> is an \<^typ>\<open>int\<close>, a numpy \<^verbatim>\<open>int64\<close> an \<^typ>\<open>int\<close> that wraps around at 64
    bits; a sequence is a list;
  \<^item> a raised exception is the \<open>Inl\<close> branch of a result of type \<open>error + 'a\<close>;
  \<^item> a circuit is a list of moments, a moment a list of operations, an operation a gate
    applied to a list of qubits;
  \<^item> the sampler and the simulator are collaborators that live outside this module: they
    are arguments of the functions that call them, and they may fail themselves.
\<close>

subsection \<open>Exceptions\<close>

datatype error =
    ValueError
  | ZeroDivisionError
  | AssertionError
  | KeyError
  | IndexError
  | CollaboratorError

subsection \<open>Linear estimator\<close>

text \<open>
  \<^verbatim>\<open>np.mean\<close> of a sequence: the sum divided by the number of entries. Of an empty
  sequence numpy returns NaN (with a warning), which is no real number: \<open>None\<close>.
\<close>

definition np_mean :: "real list \<Rightarrow> real option" where
  "np_mean xs = (if xs = [] then None else Some (sum_list xs / real (length xs)))"

text \<open>\<^verbatim>\<open>return hilbert_space_dimension * np.mean(probabilities) - 1\<close>\<close>

definition linear_xeb_fidelity_from_probabilities :: "int \<Rightarrow> real list \<Rightarrow> real option" where
  "linear_xeb_fidelity_from_probabilities hilbert_space_dimension probabilities =
     map_option (\<lambda>mean. real_of_int hilbert_space_dimension * mean - 1) (np_mean probabilities)"

subsection \<open>Least-squares estimator\<close>

text \<open>
  The accumulation loop
  \<^verbatim>\<open>for m, e, u in zip(...): numerator += (m - u) * (e - u); denominator += (e - u) ** 2\<close>
  with the pair \<open>(numerator, denominator)\<close> as its state.
\<close>

fun ls_accumulate :: "(real \<times> real \<times> real) list \<Rightarrow> real \<times> real \<Rightarrow> real \<times> real" where
  "ls_accumulate [] (numerator, denominator) = (numerator, denominator)"
| "ls_accumulate ((m, e, u) # rest) (numerator, denominator) =
     ls_accumulate rest (numerator + (m - u) * (e - u), denominator + (e - u)\<^sup>2)"

text \<open>
  The numbers in the three sequences are built-in Python floats, or there are numpy
  \<^verbatim>\<open>float64\<close> scalars among them, as when
  \<^verbatim>\<open>least_squares_xeb_fidelity_from_probabilities\<close> passes the results of \<^verbatim>\<open>np.mean\<close> and
  \<^verbatim>\<open>np.sum\<close>. The two kinds agree on every operation of this function but one, the
  division by zero: built-in floats raise \<^verbatim>\<open>ZeroDivisionError\<close>, whereas with a numpy
  scalar among the entries the accumulated numerator is a numpy scalar, and the division
  yields NaN or an infinity with a warning and no exception.
\<close>

datatype scalar_kind = BuiltinFloat | NumpyFloat64

text \<open>
  The length check comes first and raises \<^verbatim>\<open>ValueError\<close>. A fidelity or a residual
  that is NaN or an infinity is \<open>None\<close>. The accumulators start as the built-in float
  \<^verbatim>\<open>0.0\<close>, so that with no triple at all the division is that of built-in floats.
\<close>

definition least_squares_xeb_fidelity_from_expectations ::
  "scalar_kind \<Rightarrow> real list \<Rightarrow> real list \<Rightarrow> real list \<Rightarrow>
   error + (real option \<times> real option list)" where
  "least_squares_xeb_fidelity_from_expectations
       kind measured_expectations exact_expectations uniform_expectations =
     (if \<not> (length measured_expectations = length exact_expectations
             \<and> length exact_expectations = length uniform_expectations)
      then Inl ValueError
      else
        let triples = zip measured_expectations (zip exact_expectations uniform_expectations);
            (numerator, denominator) = ls_accumulate triples (0, 0)
        in if denominator = 0
           then (if kind = NumpyFloat64 \<and> triples \<noteq> []
                 then Inr (None, map (\<lambda>(m, e, u). None) triples)
                 else Inl ZeroDivisionError)
           else
             let fidelity = numerator / denominator
             in Inr (Some fidelity,
                     map (\<lambda>(m, e, u). Some (fidelity * (e - u) - (m - u))) triples))"

subsection \<open>Characterization options and the initial simplex\<close>

record XEBPhasedFSimCharacterizationOptions =
  characterize_theta :: bool
  characterize_zeta :: bool
  characterize_chi :: bool
  characterize_gamma :: bool
  characterize_phi :: bool
  theta_default :: real
  zeta_default :: real
  chi_default :: real
  gamma_default :: real
  phi_default :: real

text \<open>\<^verbatim>\<open>np.eye(1, M, k)[0]\<close>: the row of length \<open>M\<close> with a one in column \<open>k\<close>.\<close>

definition np_eye_row :: "nat \<Rightarrow> nat \<Rightarrow> real list" where
  "np_eye_row M k = map (\<lambda>j. if j = k then 1 else 0) [0..<M]"

text \<open>A scalar times an array, and the sum of two arrays of one shape.\<close>

definition np_scale :: "real \<Rightarrow> real list \<Rightarrow> real list" where
  "np_scale s v = map (\<lambda>x. s * x) v"

definition np_add :: "real list \<Rightarrow> real list \<Rightarrow> real list" where
  "np_add v w = map2 (+) v w"

text \<open>
  The five \<^verbatim>\<open>if self.characterize_xxx: x0 += [...]; names += [...]\<close> statements update
  the pair \<open>(x0, names)\<close> one after the other; the loop over \<^verbatim>\<open>range(n_param)\<close> appends
  one vertex per parameter. The names are those of the sympy symbols
  \<^verbatim>\<open>theta zeta chi gamma phi\<close>.
\<close>

definition get_initial_simplex_and_names ::
  "XEBPhasedFSimCharacterizationOptions \<Rightarrow> real \<Rightarrow> real list list \<times> string list" where
  "get_initial_simplex_and_names self initial_simplex_step_size =
     (let x0 = []; names = [];
          (x0, names) = (if characterize_theta self
                         then (x0 @ [theta_default self], names @ [''theta''])
                         else (x0, names));
          (x0, names) = (if characterize_zeta self
                         then (x0 @ [zeta_default self], names @ [''zeta''])
                         else (x0, names));
          (x0, names) = (if characterize_chi self
                         then (x0 @ [chi_default self], names @ [''chi''])
                         else (x0, names));
          (x0, names) = (if characterize_gamma self
                         then (x0 @ [gamma_default self], names @ [''gamma''])
                         else (x0, names));
          (x0, names) = (if characterize_phi self
                         then (x0 @ [phi_default self], names @ [''phi''])
                         else (x0, names));
          n_param = length x0;
          initial_simplex =
            [x0] @ map (\<lambda>i. np_add x0
                               (np_scale initial_simplex_step_size (np_eye_row n_param i)))
                     [0..<n_param]
      in (initial_simplex, names))"

text \<open>
  The specification's canonical order of the five angles, each with its flag and its
  default value. This table is written from the specification, to state the property
  of \<open>get_initial_simplex_and_names\<close> against.
\<close>

definition canonical_angle_table ::
  "XEBPhasedFSimCharacterizationOptions \<Rightarrow> (string \<times> bool \<times> real) list" where
  "canonical_angle_table opts =
     [(''theta'', characterize_theta opts, theta_default opts),
      (''zeta'', characterize_zeta opts, zeta_default opts),
      (''chi'', characterize_chi opts, chi_default opts),
      (''gamma'', characterize_gamma opts, gamma_default opts),
      (''phi'', characterize_phi opts, phi_default opts)]"

subsection \<open>Benchmark aggregator\<close>

text \<open>
  Rows of the tables, keyed by \<open>(circuit_i, cycle_depth)\<close>: a record of the simulation
  scheduler, a record of the sampling scheduler, a row of the joined table
  \<^verbatim>\<open>sampled_df.join(simulated_df)\<close>, and a row after \<^verbatim>\<open>_summary_stats\<close> has added its
  columns (the columns \<^verbatim>\<open>x\<close>, \<^verbatim>\<open>y\<close>, \<^verbatim>\<open>numerator\<close> and \<^verbatim>\<open>denominator\<close> carry the suffix
  \<open>_col\<close> here).
\<close>

record xeb_index =
  circuit_i :: nat
  cycle_depth :: int

record simulated_record = xeb_index +
  pure_probs :: "real list"

record sampled_record = xeb_index +
  sampled_probs :: "real list"

record joined_row = sampled_record +
  pure_probs :: "real list"

record summary_row = joined_row +
  e_u :: real
  u_u :: real
  m_u :: real
  y_col :: real
  x_col :: real
  numerator_col :: real
  denominator_col :: real

text \<open>
  The product of two one-dimensional arrays: elementwise when the lengths agree, with
  an array of length one broadcast along the other, and a \<^verbatim>\<open>ValueError\<close> otherwise.
\<close>

definition np_mul :: "real list \<Rightarrow> real list \<Rightarrow> error + real list" where
  "np_mul v w =
     (if length v = length w then Inr (map2 (*) v w)
      else if length v = 1 then Inr (map (\<lambda>b. hd v * b) w)
      else if length w = 1 then Inr (map (\<lambda>a. a * hd w) v)
      else Inl ValueError)"

text \<open>\<^verbatim>\<open>_summary_stats(row)\<close>, with the two-qubit dimension \<^verbatim>\<open>D = 4\<close>.\<close>

definition summary_stats :: "joined_row \<Rightarrow> error + summary_row" where
  "summary_stats row =
     (let D = 4;
          e = sum_list (map (\<lambda>p. p\<^sup>2) (pure_probs row));
          u = sum_list (pure_probs row) / D
      in case np_mul (pure_probs row) (sampled_probs row) of
           Inl err \<Rightarrow> Inl err
         | Inr products \<Rightarrow>
             let m = sum_list products;
                 y = m - u;
                 x = e - u
             in Inr \<lparr>circuit_i = circuit_i row, cycle_depth = cycle_depth row,
                     sampled_probs = sampled_probs row, pure_probs = pure_probs row,
                     e_u = e, u_u = u, m_u = m, y_col = y, x_col = x,
                     numerator_col = x * y, denominator_col = x\<^sup>2\<rparr>)"

text \<open>
  A function that may raise, on every element of a list in turn, as \<^verbatim>\<open>df.apply(f, axis=1)\<close>
  and a list comprehension do: the first exception ends it.
\<close>

fun map_raising :: "('a \<Rightarrow> error + 'b) \<Rightarrow> 'a list \<Rightarrow> error + 'b list" where
  "map_raising f [] = Inr []"
| "map_raising f (r # rs) =
     (case f r of
        Inl err \<Rightarrow> Inl err
      | Inr r' \<Rightarrow> (case map_raising f rs of Inl err \<Rightarrow> Inl err | Inr rs' \<Rightarrow> Inr (r' # rs')))"

text \<open>
  \<^verbatim>\<open>per_cycle_depth(df)\<close>: the quotient of the two column sums. The sums are numpy
  floats, whose division by zero gives an infinity or NaN and no exception: \<open>None\<close>.
\<close>

definition per_cycle_depth :: "summary_row list \<Rightarrow> real option" where
  "per_cycle_depth df =
     (let numerator_sum = sum_list (map numerator_col df);
          denominator_sum = sum_list (map denominator_col df)
      in if denominator_sum = 0 then None else Some (numerator_sum / denominator_sum))"

text \<open>
  The part of \<^verbatim>\<open>benchmark_2q_xeb_fidelities\<close> that follows the join, as a function of the
  joined table: the summary statistics of every row, then one fidelity for each cycle
  depth of the table, the groups in ascending order of their key as \<^verbatim>\<open>groupby\<close> gives
  them.
\<close>

definition benchmark_2q_xeb_fidelities_joined ::
  "joined_row list \<Rightarrow> error + (int \<times> real option) list" where
  "benchmark_2q_xeb_fidelities_joined df =
     (case map_raising summary_stats df of
        Inl err \<Rightarrow> Inl err
      | Inr stats \<Rightarrow>
          Inr (map (\<lambda>d. (d, per_cycle_depth (filter (\<lambda>row. cycle_depth row = d) stats)))
                 (sort (remdups (map cycle_depth stats)))))"

subsection \<open>Single-circuit evaluator\<close>

text \<open>
  The work that \<^verbatim>\<open>xeb_fidelity\<close> hands to others is logged, in the order in which it
  happens: a call of \<^verbatim>\<open>final_state_vector\<close>, or the lookup of one bitstring in the
  amplitude mapping.
\<close>

datatype xeb_event = Simulated | Looked_up int

text \<open>
  \<^verbatim>\<open>np.abs(a) ** 2\<close> of a complex amplitude: the square of its modulus, which is the sum
  of the squares of its real and imaginary parts.
\<close>

definition abs_squared :: "complex \<Rightarrow> real" where
  "abs_squared a = (Re a)\<^sup>2 + (Im a)\<^sup>2"

text \<open>
  The validation loop
  \<^verbatim>\<open>for bitstring in bitstrings: if not 0 <= bitstring < dimension: raise ValueError(...)\<close>.
\<close>

fun check_bitstrings :: "int \<Rightarrow> int list \<Rightarrow> error + unit" where
  "check_bitstrings dimension [] = Inr ()"
| "check_bitstrings dimension (bitstring # rest) =
     (if \<not> (0 \<le> bitstring \<and> bitstring < dimension) then Inl ValueError
      else check_bitstrings dimension rest)"

text \<open>
  \<^verbatim>\<open>[amplitudes[bitstring] for bitstring in bitstrings]\<close>: a missing key raises
  \<^verbatim>\<open>KeyError\<close> at the first bitstring that is not in the mapping.
\<close>

fun lookup_amplitudes ::
  "(int \<rightharpoonup> complex) \<Rightarrow> int list \<Rightarrow> (error + complex list) \<times> xeb_event list" where
  "lookup_amplitudes amplitudes [] = (Inr [], [])"
| "lookup_amplitudes amplitudes (bitstring # rest) =
     (case amplitudes bitstring of
        None \<Rightarrow> (Inl KeyError, [Looked_up bitstring])
      | Some a \<Rightarrow>
          (case lookup_amplitudes amplitudes rest of
             (Inl err, events) \<Rightarrow> (Inl err, Looked_up bitstring # events)
           | (Inr as, events) \<Rightarrow> (Inr (a # as), Looked_up bitstring # events)))"

text \<open>
  \<^verbatim>\<open>output_probabilities[bitstrings]\<close>: indexing an array by a list of integers. A
  negative index counts from the end; an index outside the array raises \<^verbatim>\<open>IndexError\<close>.
\<close>

fun np_take :: "'a list \<Rightarrow> int list \<Rightarrow> error + 'a list" where
  "np_take arr [] = Inr []"
| "np_take arr (i # rest) =
     (let n = int (length arr); j = (if i < 0 then n + i else i)
      in if 0 \<le> j \<and> j < n
         then (case np_take arr rest of Inl err \<Rightarrow> Inl err | Inr vs \<Rightarrow> Inr (arr ! nat j # vs))
         else Inl IndexError)"

text \<open>
  \<^verbatim>\<open>np.product\<close> of a tuple of integers: numpy multiplies them as signed 64-bit
  integers, and every product wraps around silently. (The product of no factors is 1.)
\<close>

definition int64_wrap :: "int \<Rightarrow> int" where
  "int64_wrap k = (k + 2 ^ 63) mod 2 ^ 64 - 2 ^ 63"

definition np_product :: "int list \<Rightarrow> int" where
  "np_product factors = foldl (\<lambda>acc factor. int64_wrap (acc * factor)) 1 factors"

text \<open>
  \<^verbatim>\<open>xeb_fidelity\<close>. The circuit class is not part of this module: \<open>qid_shape\<close> gives the
  per-site dimensions of a circuit, \<open>final_state_vector\<close> is the simulator, which may
  fail, and \<open>estimator\<close> is the estimator the caller chose. The dimension is
  \<^verbatim>\<open>np.product(circuit.qid_shape())\<close>. The result comes with the record of the delegated
  work.
\<close>

definition xeb_fidelity ::
  "('c \<Rightarrow> int list) \<Rightarrow> ('c \<Rightarrow> 'o \<Rightarrow> error + complex list) \<Rightarrow>
   'c \<Rightarrow> int list \<Rightarrow> 'o \<Rightarrow> (int \<rightharpoonup> complex) option \<Rightarrow> (int \<Rightarrow> real list \<Rightarrow> 'r) \<Rightarrow>
   (error + 'r) \<times> xeb_event list" where
  "xeb_fidelity qid_shape final_state_vector circuit bitstrings qubit_order amplitudes estimator =
     (let dimension = np_product (qid_shape circuit)
      in case check_bitstrings dimension bitstrings of
           Inl err \<Rightarrow> (Inl err, [])
         | Inr _ \<Rightarrow>
             (case amplitudes of
                None \<Rightarrow>
                  (case final_state_vector circuit qubit_order of
                     Inl err \<Rightarrow> (Inl err, [Simulated])
                   | Inr output_state \<Rightarrow>
                       let output_probabilities = map abs_squared output_state
                       in (case np_take output_probabilities bitstrings of
                             Inl err \<Rightarrow> (Inl err, [Simulated])
                           | Inr bitstring_probabilities \<Rightarrow>
                               (Inr (estimator dimension bitstring_probabilities), [Simulated])))
              | Some amps \<Rightarrow>
                  (case lookup_amplitudes amps bitstrings of
                     (Inl err, events) \<Rightarrow> (Inl err, events)
                   | (Inr as, events) \<Rightarrow>
                       (Inr (estimator dimension (map abs_squared as)), events))))"

subsection \<open>Circuits\<close>

text \<open>
  Modelled from the spec: the circuit class lives outside this module. The
  specification describes a circuit as an ordered sequence of layers (moments), each a
  collection of operations on disjoint qubit-like sites; the length of a circuit is its
  number of moments, and a slice of a circuit is the circuit of the selected moments.
\<close>

datatype 'g gate = Gate 'g | MeasurementGate

datatype ('g, 'q) operation = GateOperation (gate: "'g gate") (qubits: "'q list")

type_synonym ('g, 'q) moment = "('g, 'q) operation list"

type_synonym ('g, 'q) circuit = "('g, 'q) moment list"

text \<open>
  Modelled from the spec: \<^verbatim>\<open>circuit.all_qubits()\<close>, the set of the sites that the
  operations of the circuit act on.
\<close>

definition all_qubits :: "('g, 'q) circuit \<Rightarrow> 'q set" where
  "all_qubits circuit = (\<Union>moment\<in>set circuit. \<Union>op\<in>set moment. set (qubits op))"

text \<open>Modelled from the spec: \<^verbatim>\<open>ops.measure(q0, q1)\<close>, a measurement of the two sites.\<close>

definition measure :: "'q \<Rightarrow> 'q \<Rightarrow> ('g, 'q) operation" where
  "measure q0 q1 = GateOperation MeasurementGate [q0, q1]"

text \<open>
  Modelled from the spec: \<^verbatim>\<open>circuit + operation\<close>, which the specification describes as
  appending a terminal operation to the circuit: a new last moment that holds it.
\<close>

definition circuit_add :: "('g, 'q) circuit \<Rightarrow> ('g, 'q) operation \<Rightarrow> ('g, 'q) circuit" where
  "circuit_add circuit op = circuit @ [[op]]"

subsection \<open>Python sequences\<close>

text \<open>\<^verbatim>\<open>enumerate(xs)\<close>.\<close>

definition enumerate_list :: "'a list \<Rightarrow> (nat \<times> 'a) list" where
  "enumerate_list xs = zip [0..<length xs] xs"

text \<open>
  \<^verbatim>\<open>xs[lo:hi]\<close> and \<^verbatim>\<open>xs[:hi]\<close>: a negative bound counts from the end, and both bounds are
  clamped to the sequence.
\<close>

definition py_slice_bound :: "nat \<Rightarrow> int \<Rightarrow> nat" where
  "py_slice_bound n k = (if k < 0 then nat (int n + k) else min (nat k) n)"

definition py_slice :: "'a list \<Rightarrow> int \<Rightarrow> int \<Rightarrow> 'a list" where
  "py_slice xs lo hi =
     drop (py_slice_bound (length xs) lo) (take (py_slice_bound (length xs) hi) xs)"

definition py_slice_to :: "'a list \<Rightarrow> int \<Rightarrow> 'a list" where
  "py_slice_to xs hi = take (py_slice_bound (length xs) hi) xs"

text \<open>\<^verbatim>\<open>range(start, stop, step)\<close>; a step of zero raises \<^verbatim>\<open>ValueError\<close>.\<close>

definition py_range :: "int \<Rightarrow> int \<Rightarrow> int \<Rightarrow> error + int list" where
  "py_range start stop step =
     (if step = 0 then Inl ValueError
      else if 0 < step
      then Inr (map (\<lambda>k. start + int k * step) [0..<nat ((stop - start + step - 1) div step)])
      else Inr (map (\<lambda>k. start + int k * step)
                  [0..<nat ((start - stop - step - 1) div (- step))]))"

subsection \<open>Data frames\<close>

text \<open>
  \<^verbatim>\<open>pd.DataFrame(records).set_index(['circuit_i', 'cycle_depth'])\<close>: the table of the
  records, in their order, indexed by the two key columns. The data frame of an empty
  list of records has no columns, and \<^verbatim>\<open>set_index\<close> then raises \<^verbatim>\<open>KeyError\<close>.
\<close>

definition DataFrame_set_index :: "'r list \<Rightarrow> error + 'r list" where
  "DataFrame_set_index records = (if records = [] then Inl KeyError else Inr records)"

subsection \<open>Sampling scheduler\<close>

record ('g, 'q) Sample2qXEBTask =
  task_cycle_depth :: int
  task_circuit_i :: nat
  prepared_circuit :: "('g, 'q) circuit"

text \<open>
  \<^verbatim>\<open>_verify_and_get_two_qubits_from_circuits\<close>: the union of the qubits of all circuits,
  sorted, must have exactly two elements.
\<close>

definition verify_and_get_two_qubits_from_circuits ::
  "('g, 'q::linorder) circuit list \<Rightarrow> error + 'q list" where
  "verify_and_get_two_qubits_from_circuits circuits =
     (let all_qubits_set = (\<Union>circuit\<in>set circuits. all_qubits circuit);
          all_qubits_list = sorted_list_of_set all_qubits_set
      in if length all_qubits_list \<noteq> 2 then Inl ValueError else Inr all_qubits_list)"

text \<open>
  The inner loop \<^verbatim>\<open>for circuit_i, circuit in enumerate(circuits)\<close> of the task
  construction, for one cycle depth: the assertion, the truncation and the measurement.
  (The loop variables \<^verbatim>\<open>cycle_depth\<close> and \<^verbatim>\<open>circuit_i\<close> are \<open>depth\<close> and \<open>circuit_index\<close>
  here and below.)
\<close>

fun sample_tasks_for_depth ::
  "'q \<Rightarrow> 'q \<Rightarrow> int \<Rightarrow> (nat \<times> ('g, 'q) circuit) list \<Rightarrow>
   error + ('g, 'q) Sample2qXEBTask list" where
  "sample_tasks_for_depth q0 q1 depth [] = Inr []"
| "sample_tasks_for_depth q0 q1 depth ((circuit_index, circuit) # rest) =
     (let circuit_depth = depth * 2 + 1
      in if \<not> (circuit_depth \<le> int (length circuit)) then Inl AssertionError
         else
           let truncated_circuit = py_slice_to circuit circuit_depth;
               prepared = circuit_add truncated_circuit (measure q0 q1);
               task = \<lparr>task_cycle_depth = depth, task_circuit_i = circuit_index,
                       prepared_circuit = prepared\<rparr>
           in case sample_tasks_for_depth q0 q1 depth rest of
                Inl err \<Rightarrow> Inl err
              | Inr tasks \<Rightarrow> Inr (task # tasks))"

text \<open>The outer loop \<^verbatim>\<open>for cycle_depth in cycle_depths\<close>.\<close>

fun sample_tasks ::
  "'q \<Rightarrow> 'q \<Rightarrow> ('g, 'q) circuit list \<Rightarrow> int list \<Rightarrow> error + ('g, 'q) Sample2qXEBTask list" where
  "sample_tasks q0 q1 circuits [] = Inr []"
| "sample_tasks q0 q1 circuits (depth # rest) =
     (case sample_tasks_for_depth q0 q1 depth (enumerate_list circuits) of
        Inl err \<Rightarrow> Inl err
      | Inr tasks \<Rightarrow>
          (case sample_tasks q0 q1 circuits rest of
             Inl err \<Rightarrow> Inl err
           | Inr later \<Rightarrow> Inr (tasks @ later)))"

text \<open>
  \<^verbatim>\<open>np.bincount(sampled_inds, minlength=4)\<close>: how often each outcome occurs, for the
  outcomes from 0 up to the largest one sampled, and up to 3 at least.
\<close>

definition np_bincount :: "nat list \<Rightarrow> nat \<Rightarrow> nat list" where
  "np_bincount sampled_inds minlength =
     map (count_list sampled_inds)
       [0..<max minlength (if sampled_inds = [] then 0 else Suc (Max (set sampled_inds)))]"

text \<open>
  The loop of \<^verbatim>\<open>_SampleInBatches.__call__\<close> over \<^verbatim>\<open>zip(tasks, results)\<close>. The unpacking
  \<^verbatim>\<open>(result,) = nested_result\<close> raises \<^verbatim>\<open>ValueError\<close> unless the nested result has exactly
  one entry. A result is the list of the sampled outcomes. (The division by the number
  of samples is that of the reals; for an empty sample numpy yields NaN.)
\<close>

fun sample_records ::
  "(('g, 'q) Sample2qXEBTask \<times> nat list list) list \<Rightarrow> error + sampled_record list" where
  "sample_records [] = Inr []"
| "sample_records ((task, nested_result) # rest) =
     (case nested_result of
        [result] \<Rightarrow>
          (let sampled_inds = result;
               sampled = map (\<lambda>c. real c / real (length sampled_inds))
                           (np_bincount sampled_inds (2 ^ 2));
               record = \<lparr>circuit_i = task_circuit_i task, cycle_depth = task_cycle_depth task,
                         sampled_probs = sampled\<rparr>
           in case sample_records rest of
                Inl err \<Rightarrow> Inl err
              | Inr records \<Rightarrow> Inr (record # records))
      | _ \<Rightarrow> Inl ValueError)"

text \<open>
  \<^verbatim>\<open>_SampleInBatches.__call__\<close>: one call of the sampler's \<^verbatim>\<open>run_batch\<close>, which may fail,
  then the assertion that there is one result per task.
\<close>

definition SampleInBatches_call ::
  "(('g, 'q) circuit list \<Rightarrow> int \<Rightarrow> error + nat list list list) \<Rightarrow> int \<Rightarrow>
   ('g, 'q) Sample2qXEBTask list \<Rightarrow> error + sampled_record list" where
  "SampleInBatches_call run_batch repetitions tasks =
     (let prepared_circuits = map prepared_circuit tasks
      in case run_batch prepared_circuits repetitions of
           Inl err \<Rightarrow> Inl err
         | Inr results \<Rightarrow>
             if length results \<noteq> length tasks then Inl AssertionError
             else sample_records (zip tasks results))"

text \<open>
  The loop over \<^verbatim>\<open>concurrent.futures.as_completed(futures)\<close>: the futures are visited
  in the order in which they complete, given here as a list of their indices, and
  \<^verbatim>\<open>future.result()\<close> raises what the batch raised.
\<close>

fun collect_completed ::
  "(error + 'r list) list \<Rightarrow> nat list \<Rightarrow> 'r list \<Rightarrow> error + 'r list" where
  "collect_completed futures [] records = Inr records"
| "collect_completed futures (k # later) records =
     (case futures ! k of
        Inl err \<Rightarrow> Inl err
      | Inr batch_records \<Rightarrow> collect_completed futures later (records @ batch_records))"

text \<open>
  \<^verbatim>\<open>sample_2q_xeb_circuits\<close>. The sampler's \<^verbatim>\<open>run_batch\<close> and the order in which the
  batches complete (a permutation of the batch indices) are arguments. The progress
  bar has no part in the result. The result is the data frame of the records, indexed
  by \<open>(circuit_i, cycle_depth)\<close>.
\<close>

definition sample_2q_xeb_circuits ::
  "(('g, 'q::linorder) circuit list \<Rightarrow> int \<Rightarrow> error + nat list list list) \<Rightarrow> nat list \<Rightarrow>
   ('g, 'q) circuit list \<Rightarrow> int list \<Rightarrow> int \<Rightarrow> int \<Rightarrow> error + sampled_record list" where
  "sample_2q_xeb_circuits run_batch completion_order circuits cycle_depths repetitions
       batch_size =
     (case verify_and_get_two_qubits_from_circuits circuits of
        Inl err \<Rightarrow> Inl err
      | Inr two_qubits \<Rightarrow>
          (case two_qubits of
             [q0, q1] \<Rightarrow>
               (case sample_tasks q0 q1 circuits cycle_depths of
                  Inl err \<Rightarrow> Inl err
                | Inr tasks \<Rightarrow>
                    let n_tasks = length tasks
                    in (case py_range 0 (int n_tasks) batch_size of
                          Inl err \<Rightarrow> Inl err
                        | Inr starts \<Rightarrow>
                            let batched_tasks =
                                  map (\<lambda>i. py_slice tasks i (i + batch_size)) starts;
                                futures =
                                  map (SampleInBatches_call run_batch repetitions) batched_tasks
                            in (case collect_completed futures completion_order [] of
                                  Inl err \<Rightarrow> Inl err
                                | Inr records \<Rightarrow> DataFrame_set_index records)))
           | _ \<Rightarrow> Inl ValueError))"

subsection \<open>Simulation scheduler\<close>

record ('g, 'q, 'r) Simulate2qXEBTask =
  sim_circuit_i :: nat
  sim_cycle_depths :: "int list"
  sim_circuit :: "('g, 'q) circuit"
  sim_param_resolver :: 'r

text \<open>
  The loop of \<^verbatim>\<open>_Simulate_2q_XEB_Circuit.__call__\<close> over the enumerated step results,
  with the list of records as its state. A step result is the state vector after the
  moment.
\<close>

fun simulate_records ::
  "nat \<Rightarrow> int set \<Rightarrow> (nat \<times> complex list) list \<Rightarrow> simulated_record list \<Rightarrow>
   simulated_record list" where
  "simulate_records circuit_index cycle_depths [] records = records"
| "simulate_records circuit_index cycle_depths ((moment_i, step_result) # rest) records =
     (if moment_i mod 2 = 1 then simulate_records circuit_index cycle_depths rest records
      else
        let depth = int moment_i div 2
        in if depth \<notin> cycle_depths
           then simulate_records circuit_index cycle_depths rest records
           else
             let psi = step_result;
                 probs = map abs_squared psi
             in simulate_records circuit_index cycle_depths rest
                  (records @ [\<lparr>circuit_i = circuit_index, cycle_depth = depth,
                               simulated_record.pure_probs = probs\<rparr>]))"

text \<open>
  \<^verbatim>\<open>_Simulate_2q_XEB_Circuit.__call__\<close>. The simulator's \<^verbatim>\<open>simulate_moment_steps\<close> is an
  argument; it yields the state vectors after the moments, or fails. \<^verbatim>\<open>max\<close> of an empty
  set raises \<^verbatim>\<open>ValueError\<close>, as does a requested depth beyond the circuit's.
\<close>

definition Simulate_2q_XEB_Circuit_call ::
  "(('g, 'q) circuit \<Rightarrow> 'r \<Rightarrow> error + complex list list) \<Rightarrow>
   ('g, 'q, 'r) Simulate2qXEBTask \<Rightarrow> error + simulated_record list" where
  "Simulate_2q_XEB_Circuit_call simulate_moment_steps task =
     (let circuit_index = sim_circuit_i task;
          cycle_depths = set (sim_cycle_depths task);
          circuit = sim_circuit task;
          param_resolver = sim_param_resolver task;
          circuit_max_cycle_depth = (int (length circuit) - 1) div 2
      in if cycle_depths = {} then Inl ValueError
         else if Max cycle_depths > circuit_max_cycle_depth then Inl ValueError
         else
           (case simulate_moment_steps circuit param_resolver of
              Inl err \<Rightarrow> Inl err
            | Inr step_results \<Rightarrow>
                Inr (simulate_records circuit_index cycle_depths
                       (enumerate_list step_results) [])))"

text \<open>
  \<^verbatim>\<open>simulate_2q_xeb_circuits\<close>, one task per circuit, executed in the order of the
  library, and the records of all tasks in one data frame.
\<close>

definition simulate_2q_xeb_circuits ::
  "(('g, 'q) circuit \<Rightarrow> 'r \<Rightarrow> error + complex list list) \<Rightarrow>
   ('g, 'q) circuit list \<Rightarrow> int list \<Rightarrow> 'r \<Rightarrow> error + simulated_record list" where
  "simulate_2q_xeb_circuits simulate_moment_steps circuits cycle_depths param_resolver =
     (let tasks = map (\<lambda>(circuit_index, circuit).
                         \<lparr>sim_circuit_i = circuit_index, sim_cycle_depths = cycle_depths,
                          sim_circuit = circuit, sim_param_resolver = param_resolver\<rparr>)
                    (enumerate_list circuits)
      in case map_raising (Simulate_2q_XEB_Circuit_call simulate_moment_steps) tasks of
           Inl err \<Rightarrow> Inl err
         | Inr nested_records \<Rightarrow> DataFrame_set_index (concat nested_records))"

section \<open>Properties\<close>

subsection \<open>The accumulation loop computes the two sums\<close>

lemma ls_accumulate_sums:
  "ls_accumulate ts (n, d) =
     (n + (\<Sum>(m, e, u)\<leftarrow>ts. (m - u) * (e - u)), d + (\<Sum>(m, e, u)\<leftarrow>ts. (e - u)\<^sup>2))"
  by (induction ts arbitrary: n d) (auto simp: algebra_simps)

lemma sum_list_zip3_index:
  assumes "length ms = length es" and "length es = length us"
  shows "(\<Sum>(m, e, u)\<leftarrow>zip ms (zip es us). f m e u)
           = (\<Sum>i<length ms. f (ms ! i) (es ! i) (us ! i))"
proof -
  let ?ts = "zip ms (zip es us)"
  have len: "length ?ts = length ms"
    using assms by simp
  have "(\<Sum>(m, e, u)\<leftarrow>?ts. f m e u) = (\<Sum>i<length ?ts. (\<lambda>(m, e, u). f m e u) (?ts ! i))"
    by (simp add: sum_list_sum_nth atLeast0LessThan)
  also have "\<dots> = (\<Sum>i<length ms. f (ms ! i) (es ! i) (us ! i))"
    using assms by (intro sum.cong) (simp_all add: len)
  finally show ?thesis .
qed

lemma ls_accumulate_index:
  assumes "length ms = length es" and "length es = length us"
  shows "ls_accumulate (zip ms (zip es us)) (0, 0) =
           ((\<Sum>i<length ms. (ms ! i - us ! i) * (es ! i - us ! i)),
            (\<Sum>i<length ms. (es ! i - us ! i)\<^sup>2))"
  by (simp add: ls_accumulate_sums sum_list_zip3_index [OF assms])


subsection \<open>Claim C2: contract of the least-squares estimator\<close>

text \<open>
  Claim C2. \<^verbatim>\<open>least_squares_xeb_fidelity_from_expectations\<close> raises \<^verbatim>\<open>ValueError\<close>
  whenever the three input sequences do not all have the same length. Otherwise, when
  the sum over all circuits \<open>U\<close> of \<open>(e\<^sub>U - u\<^sub>U)\<^sup>2\<close> is not zero, it returns the fidelity
  \<open>f\<close>, the sum of \<open>(m\<^sub>U - u\<^sub>U) (e\<^sub>U - u\<^sub>U)\<close> divided by the sum of \<open>(e\<^sub>U - u\<^sub>U)\<^sup>2\<close>, together
  with the list of residuals whose \<open>U\<close>-th entry is \<open>f (e\<^sub>U - u\<^sub>U) - (m\<^sub>U - u\<^sub>U)\<close>.
\<close>

theorem least_squares_contract:
  "(\<not> (length ms = length es \<and> length es = length us) \<longrightarrow>
      least_squares_xeb_fidelity_from_expectations kind ms es us = Inl ValueError)
   \<and> (length ms = length es \<and> length es = length us
        \<and> (\<Sum>U<length ms. (es ! U - us ! U)\<^sup>2) \<noteq> 0 \<longrightarrow>
      (\<exists>f residuals.
          least_squares_xeb_fidelity_from_expectations kind ms es us
            = Inr (Some f, map Some residuals)
        \<and> f = (\<Sum>U<length ms. (ms ! U - us ! U) * (es ! U - us ! U))
                / (\<Sum>U<length ms. (es ! U - us ! U)\<^sup>2)
        \<and> length residuals = length ms
        \<and> (\<forall>U<length ms. residuals ! U = f * (es ! U - us ! U) - (ms ! U - us ! U))))"
proof (intro conjI impI)
  assume "\<not> (length ms = length es \<and> length es = length us)"
  then show "least_squares_xeb_fidelity_from_expectations kind ms es us = Inl ValueError"
    unfolding least_squares_xeb_fidelity_from_expectations_def by simp
next
  assume h: "length ms = length es \<and> length es = length us
             \<and> (\<Sum>U<length ms. (es ! U - us ! U)\<^sup>2) \<noteq> 0"
  then have l1: "length ms = length es" and l2: "length es = length us"
    and nz: "(\<Sum>U<length ms. (es ! U - us ! U)\<^sup>2) \<noteq> 0"
    by blast+
  define num where "num = (\<Sum>U<length ms. (ms ! U - us ! U) * (es ! U - us ! U))"
  define den where "den = (\<Sum>U<length ms. (es ! U - us ! U)\<^sup>2)"
  let ?ts = "zip ms (zip es us)"
  let ?residuals = "map (\<lambda>(m, e, u). num / den * (e - u) - (m - u)) ?ts"
  have acc: "ls_accumulate ?ts (0, 0) = (num, den)"
    unfolding num_def den_def by (rule ls_accumulate_index [OF l1 l2])
  have some: "map (\<lambda>(m, e, u). Some (num / den * (e - u) - (m - u))) ?ts = map Some ?residuals"
    by (simp add: case_prod_unfold)
  have "least_squares_xeb_fidelity_from_expectations kind ms es us
          = Inr (Some (num / den),
                 map (\<lambda>(m, e, u). Some (num / den * (e - u) - (m - u))) ?ts)"
    unfolding least_squares_xeb_fidelity_from_expectations_def
    using l1 l2 nz acc by (simp add: den_def)
  then have res: "least_squares_xeb_fidelity_from_expectations kind ms es us
                    = Inr (Some (num / den), map Some ?residuals)"
    by (simp only: some)
  have nth: "\<forall>U<length ms.
               ?residuals ! U = num / den * (es ! U - us ! U) - (ms ! U - us ! U)"
    using l1 l2 by simp
  have len: "length ?residuals = length ms"
    using l1 l2 by simp
  show "\<exists>f residuals.
          least_squares_xeb_fidelity_from_expectations kind ms es us
            = Inr (Some f, map Some residuals)
        \<and> f = (\<Sum>U<length ms. (ms ! U - us ! U) * (es ! U - us ! U))
                / (\<Sum>U<length ms. (es ! U - us ! U)\<^sup>2)
        \<and> length residuals = length ms
        \<and> (\<forall>U<length ms. residuals ! U = f * (es ! U - us ! U) - (ms ! U - us ! U))"
    using res nth len unfolding num_def den_def
    by (intro exI [of _ "num / den"] exI [of _ ?residuals] conjI) (simp_all add: num_def den_def)
qed

theorem least_squares_contract_witness:
  "\<not> (length [1::real] = length [1::real, 2] \<and> length [1::real, 2] = length [1::real, 3])
   \<and> least_squares_xeb_fidelity_from_expectations BuiltinFloat [1] [1, 2] [1, 3]
       = Inl ValueError
   \<and> length [2::real, 1] = length [3::real, 2] \<and> length [3::real, 2] = length [1::real, 1]
   \<and> (\<Sum>U<length [2::real, 1]. ([3::real, 2] ! U - [1, 1] ! U)\<^sup>2) \<noteq> 0
   \<and> least_squares_xeb_fidelity_from_expectations BuiltinFloat [2, 1] [3, 2] [1, 1]
       = Inr (Some (2 / 5), [Some (- 1 / 5), Some (2 / 5)])
   \<and> least_squares_xeb_fidelity_from_expectations NumpyFloat64 [2, 1] [3, 2] [1, 1]
       = Inr (Some (2 / 5), [Some (- 1 / 5), Some (2 / 5)])"
  using least_squares_contract [of "[1]" "[1, 2]" "[1, 3]" BuiltinFloat]
        least_squares_contract [of "[2, 1]" "[3, 2]" "[1, 1]" BuiltinFloat]
        least_squares_contract [of "[2, 1]" "[3, 2]" "[1, 1]" NumpyFloat64]
  by (simp add: least_squares_xeb_fidelity_from_expectations_def lessThan_Suc
        numeral_2_eq_2 Let_def)

subsection \<open>Claim C9: a vanishing denominator\<close>

lemma sum_squares_zero_iff:
  "(\<Sum>U<(n::nat). (f U :: real)\<^sup>2) = 0 \<longleftrightarrow> (\<forall>U<n. f U = 0)"
  by (auto simp: sum_nonneg_eq_0_iff)

text \<open>
  Claim C9, as the code has it. If the three expectation sequences have equal length but
  the sum over all circuits of \<open>(e\<^sub>U - u\<^sub>U)\<^sup>2\<close> is zero, which is so in particular when
  \<open>e\<^sub>U = u\<^sub>U\<close> for every circuit, then:
  \<^item> when all three sequences are empty, or their entries are built-in floats, the
    function raises \<^verbatim>\<open>ZeroDivisionError\<close> from the fidelity division: it neither returns
    a result nor raises the documented \<^verbatim>\<open>ValueError\<close>;
  \<^item> when the sequences are not empty and there are numpy scalars among their entries,
    the function raises nothing and returns a fidelity that is no number, with as many
    residuals, none of them a number.
\<close>

theorem least_squares_zero_denominator:
  "(length ms = length es \<and> length es = length us
      \<and> ((\<Sum>U<length ms. (es ! U - us ! U)\<^sup>2) = 0 \<or> (\<forall>U<length ms. es ! U = us ! U))
    \<longrightarrow>
      (kind = BuiltinFloat \<or> ms = [] \<longrightarrow>
         least_squares_xeb_fidelity_from_expectations kind ms es us = Inl ZeroDivisionError)
    \<and> (kind = NumpyFloat64 \<and> ms \<noteq> [] \<longrightarrow>
         least_squares_xeb_fidelity_from_expectations kind ms es us
           = Inr (None, replicate (length ms) None)))
   \<and> least_squares_xeb_fidelity_from_expectations kind [] [] [] = Inl ZeroDivisionError"
proof -
  have empty: "least_squares_xeb_fidelity_from_expectations kind [] [] []
                 = Inl ZeroDivisionError"
    by (simp add: least_squares_xeb_fidelity_from_expectations_def)
  have main: "(kind = BuiltinFloat \<or> ms = [] \<longrightarrow>
         least_squares_xeb_fidelity_from_expectations kind ms es us = Inl ZeroDivisionError)
    \<and> (kind = NumpyFloat64 \<and> ms \<noteq> [] \<longrightarrow>
         least_squares_xeb_fidelity_from_expectations kind ms es us
           = Inr (None, replicate (length ms) None))"
    if l1: "length ms = length es" and l2: "length es = length us"
      and z: "(\<Sum>U<length ms. (es ! U - us ! U)\<^sup>2) = 0 \<or> (\<forall>U<length ms. es ! U = us ! U)"
  proof -
    let ?ts = "zip ms (zip es us)"
    have zero: "(\<Sum>U<length ms. (es ! U - us ! U)\<^sup>2) = 0"
      using z by (auto simp: sum_squares_zero_iff)
    have acc: "snd (ls_accumulate ?ts (0, 0)) = 0"
      by (simp add: ls_accumulate_index [OF l1 l2] zero)
    have len: "length ?ts = length ms"
      using l1 l2 by simp
    have nil: "?ts = [] \<longleftrightarrow> ms = []"
      using len by (metis length_0_conv)
    have "map (\<lambda>(m, e, u). None) ?ts = replicate (length ?ts) None"
      by (simp only: case_prod_unfold map_replicate_const)
    then have nones: "map (\<lambda>(m, e, u). None) ?ts = replicate (length ms) None"
      by (simp only: len)
    have builtin: "least_squares_xeb_fidelity_from_expectations kind ms es us
                     = Inl ZeroDivisionError"
      if "kind = BuiltinFloat \<or> ms = []"
      unfolding least_squares_xeb_fidelity_from_expectations_def
      using l1 l2 acc that nil by (auto simp: Let_def case_prod_unfold)
    have numpy: "least_squares_xeb_fidelity_from_expectations kind ms es us
                   = Inr (None, replicate (length ms) None)"
      if "kind = NumpyFloat64 \<and> ms \<noteq> []"
      unfolding least_squares_xeb_fidelity_from_expectations_def
      using l1 l2 acc that nil nones by (simp add: Let_def case_prod_unfold)
    from builtin numpy show ?thesis by blast
  qed
  from main empty show ?thesis by blast
qed

theorem least_squares_zero_denominator_witness:
  "length [2::real, 1] = length [3::real, 2] \<and> length [3::real, 2] = length [3::real, 2]
   \<and> (\<Sum>U<length [2::real, 1]. ([3::real, 2] ! U - [3, 2] ! U)\<^sup>2) = 0
   \<and> least_squares_xeb_fidelity_from_expectations BuiltinFloat [2, 1] [3, 2] [3, 2]
       = Inl ZeroDivisionError
   \<and> least_squares_xeb_fidelity_from_expectations NumpyFloat64 [2, 1] [3, 2] [3, 2]
       = Inr (None, [None, None])
   \<and> least_squares_xeb_fidelity_from_expectations NumpyFloat64 [] [] []
       = Inl ZeroDivisionError"
  using least_squares_zero_denominator [of "[2, 1]" "[3, 2]" "[3, 2]" BuiltinFloat]
        least_squares_zero_denominator [of "[2, 1]" "[3, 2]" "[3, 2]" NumpyFloat64]
        least_squares_zero_denominator [of "[]" "[]" "[]" NumpyFloat64]
  by (simp add: numeral_2_eq_2)

text \<open>
  The claim as the specification words it, for every three sequences of equal length
  with a vanishing sum of squares, fails when the entries are numpy scalars: on the
  sequences below, where \<open>e\<^sub>U = u\<^sub>U\<close> for both circuits, the function then returns a
  result and raises no \<^verbatim>\<open>ZeroDivisionError\<close>.
\<close>

theorem least_squares_zero_denominator_counterexample:
  "length [2::real, 1] = length [3::real, 2] \<and> length [3::real, 2] = length [3::real, 2]
   \<and> (\<Sum>U<length [2::real, 1]. ([3::real, 2] ! U - [3, 2] ! U)\<^sup>2) = 0
   \<and> least_squares_xeb_fidelity_from_expectations NumpyFloat64 [2, 1] [3, 2] [3, 2]
       = Inr (None, [None, None])
   \<and> least_squares_xeb_fidelity_from_expectations NumpyFloat64 [2, 1] [3, 2] [3, 2]
       \<noteq> Inl ZeroDivisionError"
  by (simp add: least_squares_xeb_fidelity_from_expectations_def Let_def lessThan_Suc)

subsection \<open>Claim C8: the linear estimator\<close>

text \<open>
  Claim C8. For every Hilbert-space dimension \<open>D\<close> and every non-empty sequence of
  probabilities \<open>p\<^sub>1, \<dots>, p\<^sub>M\<close>, \<^verbatim>\<open>linear_xeb_fidelity_from_probabilities\<close> returns exactly
  \<open>D\<close> times the mean of the probabilities, minus one.
\<close>

theorem linear_xeb_fidelity_value:
  "ps \<noteq> [] \<Longrightarrow>
     linear_xeb_fidelity_from_probabilities D ps
       = Some (real_of_int D * ((\<Sum>i<length ps. ps ! i) / real (length ps)) - 1)"
  by (simp add: linear_xeb_fidelity_from_probabilities_def np_mean_def sum_list_sum_nth
        atLeast0LessThan)

theorem linear_xeb_fidelity_value_witness:
  "[1 / 2, 1 / 4 :: real] \<noteq> []
   \<and> linear_xeb_fidelity_from_probabilities 4 [1 / 2, 1 / 4] = Some (1 / 2)"
  using linear_xeb_fidelity_value [of "[1 / 2, 1 / 4]" 4]
  by (simp add: lessThan_Suc numeral_2_eq_2)

subsection \<open>Claim C7: the initial simplex\<close>

lemma get_initial_simplex_and_names_table:
  "get_initial_simplex_and_names opts s =
     (let x0 = map (\<lambda>(nm, en, d). d) (filter (\<lambda>(nm, en, d). en) (canonical_angle_table opts))
      in (x0 # map (\<lambda>i. np_add x0 (np_scale s (np_eye_row (length x0) i))) [0..<length x0],
          map fst (filter (\<lambda>(nm, en, d). en) (canonical_angle_table opts))))"
  by (simp add: get_initial_simplex_and_names_def canonical_angle_table_def Let_def)

lemma simplex_vertex_nth:
  "i < length x0 \<Longrightarrow> j < length x0 \<Longrightarrow>
     np_add x0 (np_scale s (np_eye_row (length x0) i)) ! j
       = x0 ! j + s * (if j = i then 1 else 0)"
  by (simp add: np_add_def np_scale_def np_eye_row_def)

lemma simplex_vertex_length:
  "length (np_add x0 (np_scale s (np_eye_row (length x0) i))) = length x0"
  by (simp add: np_add_def np_scale_def np_eye_row_def)

text \<open>
  Claim C7. For every options value and step size \<open>s\<close>,
  \<^verbatim>\<open>get_initial_simplex_and_names\<close> returns the names of exactly the enabled angles in
  the canonical order theta, zeta, chi, gamma, phi, and a simplex of \<open>n + 1\<close> vertices of
  length \<open>n\<close>, where \<open>n\<close> is the number of enabled angles. Vertex 0 is the vector of the
  enabled angles' default values; vertex \<open>i\<close> (for \<open>i = 1, \<dots>, n\<close>) is vertex 0 plus \<open>s\<close>
  times the \<open>i\<close>-th unit vector. With all five flags set the simplex has shape \<open>(6, 5)\<close>
  and there are five names.
\<close>

theorem initial_simplex_and_names:
  assumes res: "get_initial_simplex_and_names opts s = (simplex, names)"
    and en: "enabled = filter (\<lambda>(nm, flag, d). flag) (canonical_angle_table opts)"
    and n: "n = length enabled"
  shows "names = map fst enabled
       \<and> length simplex = n + 1
       \<and> (\<forall>v\<in>set simplex. length v = n)
       \<and> simplex ! 0 = map (\<lambda>(nm, flag, d). d) enabled
       \<and> (\<forall>i<n. \<forall>j<n. simplex ! (i + 1) ! j = simplex ! 0 ! j + s * (if j = i then 1 else 0))
       \<and> (characterize_theta opts \<and> characterize_zeta opts \<and> characterize_chi opts
            \<and> characterize_gamma opts \<and> characterize_phi opts \<longrightarrow>
          length simplex = 6 \<and> (\<forall>v\<in>set simplex. length v = 5)
          \<and> names = [''theta'', ''zeta'', ''chi'', ''gamma'', ''phi''])"
proof -
  define x0 where "x0 = map (\<lambda>(nm, flag, d). d) enabled"
  have lx: "length x0 = n"
    by (simp add: x0_def n)
  have simplex: "simplex = x0 # map (\<lambda>i. np_add x0 (np_scale s (np_eye_row n i))) [0..<n]"
    using res unfolding get_initial_simplex_and_names_table x0_def en n by (simp add: Let_def)
  have names: "names = map fst enabled"
    using res unfolding get_initial_simplex_and_names_table en by (simp add: Let_def)
  have len: "length simplex = n + 1"
    by (simp add: simplex)
  have rows: "\<forall>v\<in>set simplex. length v = n"
    using simplex_vertex_length [of x0 s] by (auto simp: simplex lx)
  have v0: "simplex ! 0 = map (\<lambda>(nm, flag, d). d) enabled"
    by (simp add: simplex x0_def)
  have vi: "\<forall>i<n. \<forall>j<n. simplex ! (i + 1) ! j = simplex ! 0 ! j + s * (if j = i then 1 else 0)"
  proof (intro allI impI)
    fix i j assume i: "i < n" and j: "j < n"
    have "simplex ! (i + 1) = np_add x0 (np_scale s (np_eye_row (length x0) i))"
      using i by (simp add: simplex lx)
    then show "simplex ! (i + 1) ! j = simplex ! 0 ! j + s * (if j = i then 1 else 0)"
      using simplex_vertex_nth [of i x0 j s] i j by (simp add: lx simplex)
  qed
  have all5: "n = 5 \<and> names = [''theta'', ''zeta'', ''chi'', ''gamma'', ''phi'']"
    if "characterize_theta opts \<and> characterize_zeta opts \<and> characterize_chi opts
          \<and> characterize_gamma opts \<and> characterize_phi opts"
    using that by (simp add: names n en canonical_angle_table_def)
  show ?thesis
    using names len rows v0 vi all5 by auto
qed

theorem initial_simplex_and_names_witness:
  "get_initial_simplex_and_names
      \<lparr>characterize_theta = True, characterize_zeta = True, characterize_chi = True,
       characterize_gamma = True, characterize_phi = True,
       theta_default = 1, zeta_default = 2, chi_default = 3, gamma_default = 4,
       phi_default = 5\<rparr> (1 / 10)
     = ([[1, 2, 3, 4, 5],
         [11 / 10, 2, 3, 4, 5],
         [1, 21 / 10, 3, 4, 5],
         [1, 2, 31 / 10, 4, 5],
         [1, 2, 3, 41 / 10, 5],
         [1, 2, 3, 4, 51 / 10]],
        [''theta'', ''zeta'', ''chi'', ''gamma'', ''phi''])
   \<and> length [[1, 2, 3, 4, 5],
         [11 / 10, 2, 3, 4, 5],
         [1, 21 / 10, 3, 4, 5],
         [1, 2, 31 / 10, 4, 5],
         [1, 2, 3, 41 / 10, 5],
         [1, 2, 3, 4, 51 / 10 :: real]] = 6"
proof -
  let ?opts = "\<lparr>characterize_theta = True, characterize_zeta = True, characterize_chi = True,
       characterize_gamma = True, characterize_phi = True,
       theta_default = 1, zeta_default = 2, chi_default = 3, gamma_default = 4,
       phi_default = 5\<rparr>"
  let ?simplex = "[[1, 2, 3, 4, 5],
         [11 / 10, 2, 3, 4, 5],
         [1, 21 / 10, 3, 4, 5],
         [1, 2, 31 / 10, 4, 5],
         [1, 2, 3, 41 / 10, 5],
         [1, 2, 3, 4, 51 / 10 :: real]]"
  have res: "get_initial_simplex_and_names ?opts (1 / 10)
               = (?simplex, [''theta'', ''zeta'', ''chi'', ''gamma'', ''phi''])"
    by (simp add: get_initial_simplex_and_names_def np_add_def np_scale_def np_eye_row_def
          upt_rec [of 0] upt_rec [of 1] upt_rec [of 2] upt_rec [of 3] upt_rec [of 4])
  have "length ?simplex = 6"
    using initial_simplex_and_names [OF res refl refl] by simp
  with res show ?thesis by simp
qed

subsection \<open>Claim C1: the aggregator is the least-squares estimator per depth\<close>

lemma summary_stats_fields:
  assumes "summary_stats row = Inr r"
  shows "cycle_depth r = cycle_depth row"
    and "e_u r = (\<Sum>p\<leftarrow>pure_probs row. p\<^sup>2)"
    and "u_u r = sum_list (pure_probs row) / 4"
    and "numerator_col r = (e_u r - u_u r) * (m_u r - u_u r)"
    and "denominator_col r = (e_u r - u_u r)\<^sup>2"
  using assms by (auto simp: summary_stats_def Let_def split: sum.splits)

lemma summary_stats_m_u:
  assumes "summary_stats row = Inr r"
    and "length (pure_probs row) = length (sampled_probs row)"
  shows "m_u r = (\<Sum>i<length (pure_probs row). pure_probs row ! i * sampled_probs row ! i)"
  using assms
  by (auto simp: summary_stats_def Let_def np_mul_def sum_list_sum_nth atLeast0LessThan
      split: sum.splits intro!: sum.cong)

lemma summary_stats_returns:
  "length (pure_probs row) = length (sampled_probs row) \<Longrightarrow> \<exists>r. summary_stats row = Inr r"
  by (simp add: summary_stats_def Let_def np_mul_def)

lemma map_raising_Inr:
  "map_raising f rows = Inr out \<Longrightarrow>
     length out = length rows \<and> (\<forall>i<length rows. f (rows ! i) = Inr (out ! i))"
proof (induction rows arbitrary: out)
  case Nil
  then show ?case by simp
next
  case (Cons r rs)
  then show ?case
    by (auto split: sum.splits simp: nth_Cons split: nat.splits)
qed

lemma map_raising_returns:
  "\<forall>r\<in>set rows. \<exists>r'. f r = Inr r' \<Longrightarrow> \<exists>out. map_raising f rows = Inr out"
  by (induction rows) (auto split: sum.splits)

lemma map_raising_in_set:
  assumes "map_raising f rows = Inr out" and "r' \<in> set out"
  shows "\<exists>r\<in>set rows. f r = Inr r'"
proof -
  from assms(2) obtain i where i: "i < length out" "out ! i = r'"
    by (auto simp: in_set_conv_nth)
  with map_raising_Inr [OF assms(1)] have "i < length rows" "f (rows ! i) = Inr r'"
    by auto
  then show ?thesis by (metis nth_mem)
qed

lemma zip_map3:
  "zip (map f xs) (zip (map g xs) (map h xs)) = map (\<lambda>r. (f r, g r, h r)) xs"
  by (induction xs) auto

lemma per_cycle_depth_is_least_squares:
  assumes "\<forall>r\<in>set grp. numerator_col r = (e_u r - u_u r) * (m_u r - u_u r)
                       \<and> denominator_col r = (e_u r - u_u r)\<^sup>2"
  shows "per_cycle_depth grp =
           (case least_squares_xeb_fidelity_from_expectations kind
                   (map m_u grp) (map e_u grp) (map u_u grp) of
              Inl err \<Rightarrow> None
            | Inr (f, residuals) \<Rightarrow> f)"
proof -
  have num: "sum_list (map numerator_col grp)
               = (\<Sum>(m, e, u)\<leftarrow>map (\<lambda>r. (m_u r, e_u r, u_u r)) grp. (m - u) * (e - u))"
    using assms by (induction grp) (auto simp: mult.commute)
  have den: "sum_list (map denominator_col grp)
               = (\<Sum>(m, e, u)\<leftarrow>map (\<lambda>r. (m_u r, e_u r, u_u r)) grp. (e - u)\<^sup>2)"
    using assms by (induction grp) auto
  show ?thesis
    unfolding per_cycle_depth_def least_squares_xeb_fidelity_from_expectations_def
    by (simp add: zip_map3 ls_accumulate_sums num den Let_def)
qed

text \<open>
  Claim C1. Take any joined table of rows keyed by \<open>(circuit_i, cycle_depth)\<close>, with the
  per-row statistics \<open>e_u\<close>, the sum of the squared pure probabilities, \<open>u_u\<close>, the sum of
  the pure probabilities over 4, and \<open>m_u\<close>, the sum of the products of pure and sampled
  probabilities. The fidelity that \<^verbatim>\<open>benchmark_2q_xeb_fidelities\<close> computes for a depth,
  the sum of the numerators \<open>(e_u - u_u) (m_u - u_u)\<close> over the sum of the denominators
  \<open>(e_u - u_u)\<^sup>2\<close> of that depth's rows, is the fidelity that
  \<^verbatim>\<open>least_squares_xeb_fidelity_from_expectations\<close> returns on the sequences of \<open>m_u\<close>,
  \<open>e_u\<close> and \<open>u_u\<close> of that depth's rows; neither has a value when the denominators sum
  to zero. The aggregator returns a table whenever the two probability vectors of every
  row have the same length.
\<close>

theorem benchmark_is_grouped_least_squares:
  "((\<forall>row\<in>set df. length (pure_probs row) = length (sampled_probs row)) \<longrightarrow>
      (\<exists>table. benchmark_2q_xeb_fidelities_joined df = Inr table))
   \<and> (benchmark_2q_xeb_fidelities_joined df = Inr table \<longrightarrow>
      (\<exists>stats. map_raising summary_stats df = Inr stats
         \<and> length stats = length df
         \<and> (\<forall>i<length df.
               cycle_depth (stats ! i) = cycle_depth (df ! i)
             \<and> e_u (stats ! i) = (\<Sum>p\<leftarrow>pure_probs (df ! i). p\<^sup>2)
             \<and> u_u (stats ! i) = sum_list (pure_probs (df ! i)) / 4
             \<and> (length (pure_probs (df ! i)) = length (sampled_probs (df ! i)) \<longrightarrow>
                  m_u (stats ! i)
                    = (\<Sum>k<length (pure_probs (df ! i)).
                         pure_probs (df ! i) ! k * sampled_probs (df ! i) ! k)))
         \<and> map fst table = sort (remdups (map cycle_depth df))
         \<and> (\<forall>d\<in>set (map cycle_depth df). \<exists>fidelity. (d, fidelity) \<in> set table
               \<and> fidelity =
                   (let grp = filter (\<lambda>r. cycle_depth r = d) stats
                    in case least_squares_xeb_fidelity_from_expectations kind
                              (map m_u grp) (map e_u grp) (map u_u grp) of
                         Inl err \<Rightarrow> None
                       | Inr (f, residuals) \<Rightarrow> f))))"
proof (intro conjI impI)
  assume "\<forall>row\<in>set df. length (pure_probs row) = length (sampled_probs row)"
  then have "\<exists>stats. map_raising summary_stats df = Inr stats"
    by (intro map_raising_returns) (simp add: summary_stats_returns)
  then show "\<exists>table. benchmark_2q_xeb_fidelities_joined df = Inr table"
    by (auto simp: benchmark_2q_xeb_fidelities_joined_def)
next
  assume ret: "benchmark_2q_xeb_fidelities_joined df = Inr table"
  then obtain stats where stats: "map_raising summary_stats df = Inr stats"
    and table: "table = map (\<lambda>d. (d, per_cycle_depth (filter (\<lambda>row. cycle_depth row = d) stats)))
                          (sort (remdups (map cycle_depth stats)))"
    by (auto simp: benchmark_2q_xeb_fidelities_joined_def split: sum.splits)
  have len: "length stats = length df"
    and nth: "\<forall>i<length df. summary_stats (df ! i) = Inr (stats ! i)"
    using map_raising_Inr [OF stats] by simp_all
  have depths: "map cycle_depth stats = map cycle_depth df"
    using len nth by (auto simp: list_eq_iff_nth_eq summary_stats_fields(1))
  have rows: "\<forall>i<length df.
               cycle_depth (stats ! i) = cycle_depth (df ! i)
             \<and> e_u (stats ! i) = (\<Sum>p\<leftarrow>pure_probs (df ! i). p\<^sup>2)
             \<and> u_u (stats ! i) = sum_list (pure_probs (df ! i)) / 4
             \<and> (length (pure_probs (df ! i)) = length (sampled_probs (df ! i)) \<longrightarrow>
                  m_u (stats ! i)
                    = (\<Sum>k<length (pure_probs (df ! i)).
                         pure_probs (df ! i) ! k * sampled_probs (df ! i) ! k))"
    using nth summary_stats_fields(1,2,3) summary_stats_m_u by blast
  have cols: "\<forall>r\<in>set stats. numerator_col r = (e_u r - u_u r) * (m_u r - u_u r)
                          \<and> denominator_col r = (e_u r - u_u r)\<^sup>2"
    using map_raising_in_set [OF stats] summary_stats_fields(4,5) by blast
  have grp: "per_cycle_depth (filter (\<lambda>r. cycle_depth r = d) stats) =
               (let grp = filter (\<lambda>r. cycle_depth r = d) stats
                in case least_squares_xeb_fidelity_from_expectations kind
                          (map m_u grp) (map e_u grp) (map u_u grp) of
                     Inl err \<Rightarrow> None
                   | Inr (f, residuals) \<Rightarrow> f)" for d
    unfolding Let_def using cols by (intro per_cycle_depth_is_least_squares) simp
  have keys: "map fst table = sort (remdups (map cycle_depth df))"
    by (simp add: table depths comp_def)
  have each: "\<exists>fidelity. (d, fidelity) \<in> set table
                \<and> fidelity =
                    (let grp = filter (\<lambda>r. cycle_depth r = d) stats
                     in case least_squares_xeb_fidelity_from_expectations kind
                               (map m_u grp) (map e_u grp) (map u_u grp) of
                          Inl err \<Rightarrow> None
                        | Inr (f, residuals) \<Rightarrow> f)"
    if "d \<in> set (map cycle_depth df)" for d
  proof -
    have "d \<in> set (sort (remdups (map cycle_depth stats)))"
      using that by (simp add: depths)
    then have "(d, per_cycle_depth (filter (\<lambda>row. cycle_depth row = d) stats)) \<in> set table"
      unfolding table by (simp add: image_iff)
    then show ?thesis using grp [of d] by metis
  qed
  show "\<exists>stats. map_raising summary_stats df = Inr stats
         \<and> length stats = length df
         \<and> (\<forall>i<length df.
               cycle_depth (stats ! i) = cycle_depth (df ! i)
             \<and> e_u (stats ! i) = (\<Sum>p\<leftarrow>pure_probs (df ! i). p\<^sup>2)
             \<and> u_u (stats ! i) = sum_list (pure_probs (df ! i)) / 4
             \<and> (length (pure_probs (df ! i)) = length (sampled_probs (df ! i)) \<longrightarrow>
                  m_u (stats ! i)
                    = (\<Sum>k<length (pure_probs (df ! i)).
                         pure_probs (df ! i) ! k * sampled_probs (df ! i) ! k)))
         \<and> map fst table = sort (remdups (map cycle_depth df))
         \<and> (\<forall>d\<in>set (map cycle_depth df). \<exists>fidelity. (d, fidelity) \<in> set table
               \<and> fidelity =
                   (let grp = filter (\<lambda>r. cycle_depth r = d) stats
                    in case least_squares_xeb_fidelity_from_expectations kind
                              (map m_u grp) (map e_u grp) (map u_u grp) of
                         Inl err \<Rightarrow> None
                       | Inr (f, residuals) \<Rightarrow> f))"
    using stats len rows keys each by blast
qed

theorem benchmark_is_grouped_least_squares_witness:
  "benchmark_2q_xeb_fidelities_joined
     [\<lparr>circuit_i = 0, cycle_depth = 1, sampled_probs = [1 / 2, 1 / 2, 0, 0],
       pure_probs = [1, 0, 0, 0]\<rparr>,
      \<lparr>circuit_i = 0, cycle_depth = 0, sampled_probs = [1 / 2, 1 / 2, 0, 0],
       pure_probs = [1 / 2, 1 / 2, 0, 0]\<rparr>,
      \<lparr>circuit_i = 1, cycle_depth = 1, sampled_probs = [1 / 2, 1 / 4, 1 / 4, 0],
       pure_probs = [1 / 2, 1 / 2, 0, 0]\<rparr>]
     = Inr [(0, Some 1), (1, Some (7 / 20))]
   \<and> least_squares_xeb_fidelity_from_expectations NumpyFloat64 [1 / 2, 3 / 8] [1, 1 / 2]
        [1 / 4, 1 / 4]
       = Inr (Some (7 / 20), [Some (1 / 80), Some (- 3 / 80)])"
proof -
  let ?df = "[\<lparr>circuit_i = 0, cycle_depth = 1, sampled_probs = [1 / 2, 1 / 2, 0, 0],
       pure_probs = [1, 0, 0, 0]\<rparr>,
      \<lparr>circuit_i = 0, cycle_depth = 0, sampled_probs = [1 / 2, 1 / 2, 0, 0],
       pure_probs = [1 / 2, 1 / 2, 0, 0]\<rparr>,
      \<lparr>circuit_i = 1, cycle_depth = 1, sampled_probs = [1 / 2, 1 / 4, 1 / 4, 0],
       pure_probs = [1 / 2, 1 / 2, 0, 0]\<rparr>]"
  have ret: "benchmark_2q_xeb_fidelities_joined ?df = Inr [(0, Some 1), (1, Some (7 / 20))]"
    by (simp add: benchmark_2q_xeb_fidelities_joined_def summary_stats_def np_mul_def
          per_cycle_depth_def Let_def power2_eq_square)
  have lsq: "least_squares_xeb_fidelity_from_expectations NumpyFloat64 [1 / 2, 3 / 8]
               [1, 1 / 2] [1 / 4, 1 / 4]
             = Inr (Some (7 / 20), [Some (1 / 80), Some (- 3 / 80)])"
    by (simp add: least_squares_xeb_fidelity_from_expectations_def Let_def power2_eq_square)
  from benchmark_is_grouped_least_squares
         [of ?df "[(0, Some 1), (1, Some (7 / 20))]" NumpyFloat64] ret
  have "\<exists>stats. map_raising summary_stats ?df = Inr stats"
    by blast
  with ret lsq show ?thesis by blast
qed

subsection \<open>Claim C5: the range check of the single-circuit evaluator\<close>

lemma abs_squared_cmod: "abs_squared a = (cmod a)\<^sup>2"
  by (simp add: abs_squared_def cmod_power2)

lemma check_bitstrings_Inl:
  "check_bitstrings D bs = Inl err \<longleftrightarrow>
     err = ValueError \<and> (\<exists>b\<in>set bs. \<not> (0 \<le> b \<and> b < D))"
  by (induction bs) auto

lemma check_bitstrings_Inr:
  "check_bitstrings D bs = Inr u \<longleftrightarrow> (\<forall>b\<in>set bs. 0 \<le> b \<and> b < D)"
  by (induction bs) auto

lemma lookup_amplitudes_present:
  "set bs \<subseteq> dom amps \<Longrightarrow>
     lookup_amplitudes amps bs = (Inr (map (\<lambda>b. the (amps b)) bs), map Looked_up bs)"
  by (induction bs) auto

lemma np_take_in_range:
  "\<forall>i\<in>set is. 0 \<le> i \<and> i < int (length arr) \<Longrightarrow>
     np_take arr is = Inr (map (\<lambda>i. arr ! nat i) is)"
  by (induction "is") (auto simp: Let_def)

lemma int64_wrap_mod: "int64_wrap a mod 2 ^ 64 = a mod 2 ^ 64"
proof -
  have "int64_wrap a = (a + 2 ^ 63) mod 2 ^ 64 - 2 ^ 63"
    by (simp add: int64_wrap_def)
  then have "int64_wrap a mod 2 ^ 64 = ((a + 2 ^ 63) mod 2 ^ 64 - 2 ^ 63) mod 2 ^ 64"
    by simp
  also have "\<dots> = ((a + 2 ^ 63) - 2 ^ 63) mod 2 ^ 64"
    by (rule mod_diff_left_eq)
  finally show ?thesis by simp
qed

lemma int64_wrap_cong: "int64_wrap (int64_wrap a * b) = int64_wrap (a * b)"
proof -
  have "(int64_wrap a * b) mod 2 ^ 64 = (int64_wrap a mod 2 ^ 64 * b) mod 2 ^ 64"
    by (rule mod_mult_left_eq [symmetric])
  also have "\<dots> = (a mod 2 ^ 64 * b) mod 2 ^ 64"
    by (simp only: int64_wrap_mod)
  also have "\<dots> = (a * b) mod 2 ^ 64"
    by (rule mod_mult_left_eq)
  finally have m: "(int64_wrap a * b) mod 2 ^ 64 = (a * b) mod 2 ^ 64" .
  have "(int64_wrap a * b + 2 ^ 63) mod 2 ^ 64
          = ((int64_wrap a * b) mod 2 ^ 64 + 2 ^ 63) mod 2 ^ 64"
    by (rule mod_add_left_eq [symmetric])
  also have "\<dots> = ((a * b) mod 2 ^ 64 + 2 ^ 63) mod 2 ^ 64"
    by (simp only: m)
  also have "\<dots> = (a * b + 2 ^ 63) mod 2 ^ 64"
    by (rule mod_add_left_eq)
  finally show ?thesis
    by (simp only: int64_wrap_def)
qed

lemma foldl_int64_wrap:
  "foldl (\<lambda>acc factor. int64_wrap (acc * factor)) (int64_wrap a) factors
     = int64_wrap (a * prod_list factors)"
proof (induction factors arbitrary: a)
  case Nil
  then show ?case by simp
next
  case (Cons d ds)
  have "foldl (\<lambda>acc factor. int64_wrap (acc * factor)) (int64_wrap a) (d # ds)
          = foldl (\<lambda>acc factor. int64_wrap (acc * factor)) (int64_wrap (a * d)) ds"
    by (simp only: foldl_Cons int64_wrap_cong)
  also have "\<dots> = int64_wrap (a * d * prod_list ds)"
    by (rule Cons.IH)
  finally show ?case by (simp only: prod_list.Cons mult.assoc)
qed

lemma int64_wrap_in_range: "- (2 ^ 63) \<le> k \<Longrightarrow> k < 2 ^ 63 \<Longrightarrow> int64_wrap k = k"
  by (simp add: int64_wrap_def)

lemma np_product_wraps: "np_product factors = int64_wrap (prod_list factors)"
proof -
  have one: "int64_wrap 1 = 1"
    by (simp add: int64_wrap_def)
  have "np_product factors
          = foldl (\<lambda>acc factor. int64_wrap (acc * factor)) (int64_wrap 1) factors"
    by (simp only: np_product_def one)
  then show ?thesis
    by (simp only: foldl_int64_wrap mult_1)
qed

lemma np_product_small:
  "0 \<le> prod_list factors \<Longrightarrow> prod_list factors < 2 ^ 63 \<Longrightarrow>
     np_product factors = prod_list factors"
  by (simp add: np_product_wraps int64_wrap_in_range)

lemma int64_wrap_le: "0 \<le> k \<Longrightarrow> int64_wrap k \<le> k"
proof -
  assume "0 \<le> k"
  then have "0 \<le> (k + 2 ^ 63) div (2 ^ 64 :: int)"
    by (simp add: pos_imp_zdiv_nonneg_iff)
  moreover have "(k + 2 ^ 63) mod 2 ^ 64
                   = (k + 2 ^ 63) - 2 ^ 64 * ((k + 2 ^ 63) div (2 ^ 64 :: int))"
    by (simp add: minus_mult_div_eq_mod)
  ultimately show ?thesis
    unfolding int64_wrap_def by simp
qed

text \<open>
  What the range check of \<^verbatim>\<open>xeb_fidelity\<close> does: a bitstring outside the computed
  dimension raises \<^verbatim>\<open>ValueError\<close> before the simulator is called or an amplitude looked
  up; bitstrings inside it let the work go on, and the estimator receives the computed
  dimension.
\<close>

lemma xeb_fidelity_checks_first:
  "((\<exists>b\<in>set bitstrings. \<not> (0 \<le> b \<and> b < np_product (qid_shape circuit))) \<longrightarrow>
      xeb_fidelity qid_shape final_state_vector circuit bitstrings qubit_order amplitudes
          estimator
        = (Inl ValueError, []))
   \<and> ((\<forall>b\<in>set bitstrings. 0 \<le> b \<and> b < np_product (qid_shape circuit)) \<longrightarrow>
        (amplitudes = None \<longrightarrow>
           snd (xeb_fidelity qid_shape final_state_vector circuit bitstrings qubit_order
                  amplitudes estimator) = [Simulated])
      \<and> (\<forall>output_state. amplitudes = None
             \<and> final_state_vector circuit qubit_order = Inr output_state
             \<and> int (length output_state) = np_product (qid_shape circuit) \<longrightarrow>
           xeb_fidelity qid_shape final_state_vector circuit bitstrings qubit_order
               amplitudes estimator
             = (Inr (estimator (np_product (qid_shape circuit))
                       (map (\<lambda>b. abs_squared (output_state ! nat b)) bitstrings)),
                [Simulated]))
      \<and> (\<forall>amps. amplitudes = Some amps \<and> set bitstrings \<subseteq> dom amps \<longrightarrow>
           xeb_fidelity qid_shape final_state_vector circuit bitstrings qubit_order
               amplitudes estimator
             = (Inr (estimator (np_product (qid_shape circuit))
                       (map (\<lambda>b. abs_squared (the (amps b))) bitstrings)),
                map Looked_up bitstrings)))"
proof (intro conjI impI allI)
  assume "\<exists>b\<in>set bitstrings. \<not> (0 \<le> b \<and> b < np_product (qid_shape circuit))"
  then have "check_bitstrings (np_product (qid_shape circuit)) bitstrings = Inl ValueError"
    by (simp add: check_bitstrings_Inl)
  then show "xeb_fidelity qid_shape final_state_vector circuit bitstrings qubit_order
               amplitudes estimator = (Inl ValueError, [])"
    by (simp add: xeb_fidelity_def)
next
  assume ok: "\<forall>b\<in>set bitstrings. 0 \<le> b \<and> b < np_product (qid_shape circuit)"
    and none: "amplitudes = None"
  from ok have chk: "check_bitstrings (np_product (qid_shape circuit)) bitstrings = Inr ()"
    by (simp add: check_bitstrings_Inr)
  show "snd (xeb_fidelity qid_shape final_state_vector circuit bitstrings qubit_order
               amplitudes estimator) = [Simulated]"
    using chk none by (simp add: xeb_fidelity_def Let_def split: sum.splits)
next
  fix output_state
  assume ok: "\<forall>b\<in>set bitstrings. 0 \<le> b \<and> b < np_product (qid_shape circuit)"
    and h: "amplitudes = None \<and> final_state_vector circuit qubit_order = Inr output_state
            \<and> int (length output_state) = np_product (qid_shape circuit)"
  from ok have chk: "check_bitstrings (np_product (qid_shape circuit)) bitstrings = Inr ()"
    by (simp add: check_bitstrings_Inr)
  have "\<forall>i\<in>set bitstrings. 0 \<le> i \<and> i < int (length (map abs_squared output_state))"
    using ok h by simp
  then have "np_take (map abs_squared output_state) bitstrings
               = Inr (map (\<lambda>i. map abs_squared output_state ! nat i) bitstrings)"
    by (rule np_take_in_range)
  also have "map (\<lambda>i. map abs_squared output_state ! nat i) bitstrings
               = map (\<lambda>b. abs_squared (output_state ! nat b)) bitstrings"
    using ok h by (intro map_cong) auto
  finally show "xeb_fidelity qid_shape final_state_vector circuit bitstrings qubit_order
                  amplitudes estimator
                = (Inr (estimator (np_product (qid_shape circuit))
                          (map (\<lambda>b. abs_squared (output_state ! nat b)) bitstrings)),
                   [Simulated])"
    using chk h by (simp add: xeb_fidelity_def Let_def)
next
  fix amps
  assume ok: "\<forall>b\<in>set bitstrings. 0 \<le> b \<and> b < np_product (qid_shape circuit)"
    and h: "amplitudes = Some amps \<and> set bitstrings \<subseteq> dom amps"
  from ok have chk: "check_bitstrings (np_product (qid_shape circuit)) bitstrings = Inr ()"
    by (simp add: check_bitstrings_Inr)
  show "xeb_fidelity qid_shape final_state_vector circuit bitstrings qubit_order
          amplitudes estimator
        = (Inr (estimator (np_product (qid_shape circuit))
                  (map (\<lambda>b. abs_squared (the (amps b))) bitstrings)),
           map Looked_up bitstrings)"
    using chk h by (simp add: xeb_fidelity_def Let_def lookup_amplitudes_present comp_def)
qed

lemma xeb_fidelity_rejects_out_of_range:
  assumes "0 \<le> prod_list (qid_shape circuit)"
    and "\<exists>b\<in>set bitstrings. \<not> (0 \<le> b \<and> b < prod_list (qid_shape circuit))"
  shows "xeb_fidelity qid_shape final_state_vector circuit bitstrings qubit_order amplitudes
           estimator = (Inl ValueError, [])"
proof -
  have "np_product (qid_shape circuit) \<le> prod_list (qid_shape circuit)"
    unfolding np_product_wraps using assms(1) by (rule int64_wrap_le)
  moreover from assms(2) obtain b where b: "b \<in> set bitstrings"
    and out: "\<not> (0 \<le> b \<and> b < prod_list (qid_shape circuit))"
    by blast
  ultimately have "\<not> (0 \<le> b \<and> b < np_product (qid_shape circuit))"
    by linarith
  with b have "\<exists>b\<in>set bitstrings. \<not> (0 \<le> b \<and> b < np_product (qid_shape circuit))"
    by blast
  then have "check_bitstrings (np_product (qid_shape circuit)) bitstrings = Inl ValueError"
    by (simp add: check_bitstrings_Inl)
  then show ?thesis
    by (simp add: xeb_fidelity_def)
qed

text \<open>
  Claim C5. \<^verbatim>\<open>xeb_fidelity\<close> computes the dimension \<open>D\<close> as the product of the
  circuit's per-site dimensions, and raises \<^verbatim>\<open>ValueError\<close> whenever one of the supplied
  bitstrings \<open>b\<close> violates \<open>0 \<le> b < D\<close>, before any simulation or amplitude lookup. The
  code misses this from 63 qubits on, where the product no longer fits a signed 64-bit
  integer: for a circuit of 63 qubits the product of the per-site dimensions is \<open>2\<^sup>6\<^sup>3\<close>,
  the computed dimension is \<open>- 2\<^sup>6\<^sup>3\<close>, and the bitstring 0, which is in range, raises
  \<^verbatim>\<open>ValueError\<close> although its amplitude is supplied.
\<close>

theorem xeb_fidelity_int64_overflow:
  "prod_list (replicate 63 2) = (2 ^ 63 :: int)
   \<and> (0::int) \<le> 0 \<and> (0::int) < prod_list (replicate 63 2)
   \<and> np_product (replicate 63 2) = - (2 ^ 63)
   \<and> xeb_fidelity (\<lambda>circuit. circuit) (\<lambda>circuit ord. Inl CollaboratorError)
        (replicate 63 2) [0] () (Some [0 \<mapsto> 1]) linear_xeb_fidelity_from_probabilities
       = (Inl ValueError, [])"
proof -
  have p: "prod_list (replicate 63 2) = (2 ^ 63 :: int)"
    by (simp only: prod_list_replicate)
  have d: "np_product (replicate 63 2) = - (2 ^ 63)"
    unfolding np_product_wraps p by (simp add: int64_wrap_def)
  have "xeb_fidelity (\<lambda>circuit. circuit) (\<lambda>circuit ord. Inl CollaboratorError)
          (replicate 63 2) [0] () (Some [0 \<mapsto> 1]) linear_xeb_fidelity_from_probabilities
        = (Inl ValueError, [])"
    unfolding xeb_fidelity_def Let_def d by simp
  with p d show ?thesis by simp
qed

subsection \<open>Claim C6: the verification of the two qubits\<close>

lemma finite_all_qubits: "finite (all_qubits circuit)"
  by (simp add: all_qubits_def)

lemma verify_cases:
  "verify_and_get_two_qubits_from_circuits circuits =
     (if card (\<Union>circuit\<in>set circuits. all_qubits circuit) \<noteq> 2 then Inl ValueError
      else Inr (sorted_list_of_set (\<Union>circuit\<in>set circuits. all_qubits circuit)))"
  by (simp add: verify_and_get_two_qubits_from_circuits_def Let_def length_sorted_list_of_set)

lemma verify_Inr_iff:
  "verify_and_get_two_qubits_from_circuits circuits = Inr qs \<longleftrightarrow>
     card (\<Union>circuit\<in>set circuits. all_qubits circuit) = 2
     \<and> qs = sorted_list_of_set (\<Union>circuit\<in>set circuits. all_qubits circuit)"
  by (simp only: verify_cases split: if_split) blast

lemma verify_Inl_iff:
  "verify_and_get_two_qubits_from_circuits circuits = Inl err \<longleftrightarrow>
     err = ValueError \<and> card (\<Union>circuit\<in>set circuits. all_qubits circuit) \<noteq> 2"
  by (simp only: verify_cases split: if_split) blast

lemma sorted_list_of_pair:
  fixes a b :: "'q::linorder"
  assumes "a < b"
  shows "sorted_list_of_set {a, b} = [a, b]"
proof -
  have "sorted_list_of_set (set [a, b]) = sort (remdups [a, b])"
    by (rule sorted_list_of_set_sort_remdups)
  also have "set [a, b] = {a, b}" by simp
  also have "sort (remdups [a, b]) = [a, b]" using assms by auto
  finally show ?thesis .
qed

lemma card_2_sorted_list:
  fixes U :: "'q::linorder set"
  assumes "card U = 2"
  shows "\<exists>q0 q1. q0 < q1 \<and> U = {q0, q1} \<and> sorted_list_of_set U = [q0, q1]"
proof -
  from assms obtain a b where ab: "U = {a, b}" "a \<noteq> b"
    by (auto simp: card_2_iff)
  show ?thesis
  proof (cases "a < b")
    case True
    then show ?thesis using ab sorted_list_of_pair [of a b] by blast
  next
    case False
    with ab have lt: "b < a" by simp
    have "U = {b, a}" using ab by auto
    then show ?thesis using lt sorted_list_of_pair [of b a] by blast
  qed
qed

text \<open>
  Claim C6, as the code has it. \<^verbatim>\<open>sample_2q_xeb_circuits\<close> proceeds past the
  verification when the library is not empty and all its circuits act on exactly the
  same two qubits. Whenever it proceeds, every circuit's operations are confined to one
  common pair of qubits, the pair it goes on with, in sorted order. It fails with
  \<^verbatim>\<open>ValueError\<close> when the circuits are not confined to one common pair, and also when
  the library acts on fewer than two qubits in all: to be confined to a pair is not
  enough to proceed.
\<close>

theorem verify_two_qubits_confined:
  fixes circuits :: "('g, 'q::linorder) circuit list"
  shows
  "(circuits \<noteq> [] \<and> a \<noteq> b \<and> (\<forall>circuit\<in>set circuits. all_qubits circuit = {a, b}) \<longrightarrow>
      verify_and_get_two_qubits_from_circuits circuits = Inr [min a b, max a b])
   \<and> (\<forall>qs. verify_and_get_two_qubits_from_circuits circuits = Inr qs \<longrightarrow>
        (\<exists>q0 q1. qs = [q0, q1] \<and> q0 < q1
                \<and> (\<forall>circuit\<in>set circuits. all_qubits circuit \<subseteq> {q0, q1})))
   \<and> ((\<nexists>q0 q1. \<forall>circuit\<in>set circuits. all_qubits circuit \<subseteq> {q0, q1})
        \<or> card (\<Union>circuit\<in>set circuits. all_qubits circuit) < 2 \<longrightarrow>
        verify_and_get_two_qubits_from_circuits circuits = Inl ValueError
      \<and> sample_2q_xeb_circuits run_batch completion_order circuits cycle_depths repetitions
           batch_size = Inl ValueError)"
proof -
  let ?U = "\<Union>circuit\<in>set circuits. all_qubits circuit"
  have first: "verify_and_get_two_qubits_from_circuits circuits = Inr [min a b, max a b]"
    if h: "circuits \<noteq> [] \<and> a \<noteq> b \<and> (\<forall>circuit\<in>set circuits. all_qubits circuit = {a, b})"
  proof -
    from h obtain c where "c \<in> set circuits"
      by (cases circuits) auto
    with h have U: "?U = {a, b}"
      by blast
    from h have ab: "a \<noteq> b"
      by blast
    then have card: "card ?U = 2"
      unfolding U by simp
    have "sorted_list_of_set {a, b} = [min a b, max a b]"
    proof (cases "a < b")
      case True
      then show ?thesis by (simp add: sorted_list_of_pair min_def max_def)
    next
      case False
      with ab have lt: "b < a" by simp
      have swap: "{a, b} = {b, a}" by auto
      from lt have "min a b = b" and "max a b = a"
        by auto
      then show ?thesis
        using sorted_list_of_pair [OF lt] unfolding swap by (simp only:)
    qed
    then show ?thesis
      unfolding verify_Inr_iff U using ab by simp
  qed
  have second: "\<forall>qs. verify_and_get_two_qubits_from_circuits circuits = Inr qs \<longrightarrow>
        (\<exists>q0 q1. qs = [q0, q1] \<and> q0 < q1
                \<and> (\<forall>circuit\<in>set circuits. all_qubits circuit \<subseteq> {q0, q1}))"
  proof (intro allI impI)
    fix qs assume "verify_and_get_two_qubits_from_circuits circuits = Inr qs"
    then have card: "card ?U = 2" and qs: "qs = sorted_list_of_set ?U"
      by (simp_all add: verify_Inr_iff)
    from card_2_sorted_list [OF card] obtain q0 q1 where
      lt: "q0 < q1" and U: "?U = {q0, q1}" and l: "sorted_list_of_set ?U = [q0, q1]"
      by blast
    have "\<forall>circuit\<in>set circuits. all_qubits circuit \<subseteq> {q0, q1}"
      using U by blast
    with lt l qs show "\<exists>q0 q1. qs = [q0, q1] \<and> q0 < q1
                \<and> (\<forall>circuit\<in>set circuits. all_qubits circuit \<subseteq> {q0, q1})"
      by (intro exI [of _ q0] exI [of _ q1]) simp
  qed
  have third: "verify_and_get_two_qubits_from_circuits circuits = Inl ValueError
      \<and> sample_2q_xeb_circuits run_batch completion_order circuits cycle_depths repetitions
           batch_size = Inl ValueError"
    if h: "(\<nexists>q0 q1. \<forall>circuit\<in>set circuits. all_qubits circuit \<subseteq> {q0, q1})
            \<or> card ?U < 2"
  proof -
    have "card ?U \<noteq> 2"
    proof
      assume card: "card ?U = 2"
      then obtain q0 q1 where U: "?U = {q0, q1}"
        by (auto simp: card_2_iff)
      then have "\<forall>circuit\<in>set circuits. all_qubits circuit \<subseteq> {q0, q1}"
        by blast
      with h card show False
        by auto
    qed
    then have "verify_and_get_two_qubits_from_circuits circuits = Inl ValueError"
      by (simp add: verify_Inl_iff)
    then show ?thesis
      by (simp add: sample_2q_xeb_circuits_def)
  qed
  show ?thesis
  proof (intro conjI)
    show "circuits \<noteq> [] \<and> a \<noteq> b \<and> (\<forall>circuit\<in>set circuits. all_qubits circuit = {a, b}) \<longrightarrow>
      verify_and_get_two_qubits_from_circuits circuits = Inr [min a b, max a b]"
      using first by (rule impI)
    show "\<forall>qs. verify_and_get_two_qubits_from_circuits circuits = Inr qs \<longrightarrow>
        (\<exists>q0 q1. qs = [q0, q1] \<and> q0 < q1
                \<and> (\<forall>circuit\<in>set circuits. all_qubits circuit \<subseteq> {q0, q1}))"
      by (rule second)
    show "(\<nexists>q0 q1. \<forall>circuit\<in>set circuits. all_qubits circuit \<subseteq> {q0, q1})
        \<or> card ?U < 2 \<longrightarrow>
        verify_and_get_two_qubits_from_circuits circuits = Inl ValueError
      \<and> sample_2q_xeb_circuits run_batch completion_order circuits cycle_depths repetitions
           batch_size = Inl ValueError"
      using third by (rule impI)
  qed
qed

theorem verify_two_qubits_confined_witness:
  "verify_and_get_two_qubits_from_circuits
      [[[GateOperation (Gate (0::nat)) [0::nat], GateOperation (Gate 1) [1]]],
       [[GateOperation (Gate 2) [1, 0]]]] = Inr [0, 1]
   \<and> verify_and_get_two_qubits_from_circuits
      [[[GateOperation (Gate (0::nat)) [0::nat]]]] = Inl ValueError
   \<and> sample_2q_xeb_circuits (\<lambda>cs reps. Inr []) [0]
      [[[GateOperation (Gate (0::nat)) [0::nat]]]] [0] 100 9 = Inl ValueError
   \<and> verify_and_get_two_qubits_from_circuits
      [[[GateOperation (Gate (0::nat)) [0::nat], GateOperation (Gate 1) [1]],
        [GateOperation (Gate 2) [2]]]] = Inl ValueError"
proof -
  let ?good = "[[[GateOperation (Gate (0::nat)) [0::nat], GateOperation (Gate 1) [1]]],
       [[GateOperation (Gate 2) [1, 0]]]]"
  let ?one = "[[[GateOperation (Gate (0::nat)) [0::nat]]]]"
  let ?three = "[[[GateOperation (Gate (0::nat)) [0::nat], GateOperation (Gate 1) [1]],
        [GateOperation (Gate 2) [2]]]]"
  have good: "?good \<noteq> [] \<and> (0::nat) \<noteq> 1
              \<and> (\<forall>circuit\<in>set ?good. all_qubits circuit = {0, 1})"
    by (auto simp: all_qubits_def)
  have one: "(\<Union>circuit\<in>set ?one. all_qubits circuit) = {0}"
    by (auto simp: all_qubits_def)
  have three: "(\<Union>circuit\<in>set ?three. all_qubits circuit) = {0, 1, 2}"
    by (auto simp: all_qubits_def)
  have not_confined: "\<nexists>q0 q1. \<forall>circuit\<in>set ?three. all_qubits circuit \<subseteq> {q0, q1}"
  proof
    assume "\<exists>q0 q1. \<forall>circuit\<in>set ?three. all_qubits circuit \<subseteq> {q0, q1}"
    then obtain q0 q1 where "(\<Union>circuit\<in>set ?three. all_qubits circuit) \<subseteq> {q0, q1}"
      by auto
    then have "card {0, 1, 2 :: nat} \<le> card {q0, q1}"
      unfolding three by (intro card_mono) simp_all
    moreover have "card {q0, q1} \<le> 2"
      by (simp add: card_insert_if)
    ultimately show False
      by simp
  qed
  have a: "verify_and_get_two_qubits_from_circuits ?good = Inr [0, 1]"
    using verify_two_qubits_confined [of ?good 0 1, THEN conjunct1, THEN mp, OF good]
    by simp
  have "card (\<Union>circuit\<in>set ?one. all_qubits circuit) < 2"
    unfolding one by simp
  then have b: "verify_and_get_two_qubits_from_circuits ?one = Inl ValueError
      \<and> sample_2q_xeb_circuits (\<lambda>cs reps. Inr []) [0] ?one [0] 100 9 = Inl ValueError"
    using verify_two_qubits_confined [where circuits = ?one
            and run_batch = "\<lambda>cs reps. Inr []" and completion_order = "[0]"
            and cycle_depths = "[0]" and repetitions = 100 and batch_size = 9,
            THEN conjunct2, THEN conjunct2]
    by (simp only: simp_thms)
  have c: "verify_and_get_two_qubits_from_circuits ?three = Inl ValueError"
    using verify_two_qubits_confined [where circuits = ?three
            and run_batch = "\<lambda>cs reps. Inr []" and completion_order = "[0]"
            and cycle_depths = "[0]" and repetitions = 100 and batch_size = 9,
            THEN conjunct2, THEN conjunct2] not_confined
    by (simp only: simp_thms)
  from a b c show ?thesis
    by (intro conjI) (simp_all only: simp_thms)
qed

text \<open>
  The claim as the specification words it, that the scheduler proceeds if and only if
  the circuits are confined to one common pair of qubits, fails on a library whose only
  circuit acts on qubit 0 alone: it is confined to the pair of qubits 0 and 1, yet the
  verification raises \<^verbatim>\<open>ValueError\<close>. (A library of one circuit on qubit 0 alone and one
  on qubit 1 alone passes the verification, although neither circuit uses the two
  qubits, which is what the docstring of the verification asks of each circuit.)
\<close>

theorem verify_two_qubits_counterexample:
  "(0::nat) \<noteq> 1
   \<and> all_qubits [[GateOperation (Gate (0::nat)) [0::nat]]] \<subseteq> {0, 1}
   \<and> verify_and_get_two_qubits_from_circuits [[[GateOperation (Gate (0::nat)) [0::nat]]]]
       = Inl ValueError
   \<and> all_qubits [[GateOperation (Gate (0::nat)) [0::nat]]] = {0}
   \<and> all_qubits [[GateOperation (Gate (0::nat)) [1::nat]]] = {1}
   \<and> verify_and_get_two_qubits_from_circuits
        [[[GateOperation (Gate (0::nat)) [0::nat]]], [[GateOperation (Gate (0::nat)) [1::nat]]]]
       = Inr [0, 1]"
  by (simp add: verify_cases all_qubits_def sorted_list_of_pair)

subsection \<open>Claim C4: the depth check of the simulation scheduler\<close>

lemma map_raising_Inl_elem:
  "map_raising f xs = Inl err \<Longrightarrow> \<exists>x\<in>set xs. f x = Inl err"
  by (induction xs) (auto split: sum.splits)

lemma map_raising_fails:
  "x \<in> set xs \<Longrightarrow> f x = Inl err \<Longrightarrow> \<exists>err'. map_raising f xs = Inl err'"
  by (induction xs) (auto split: sum.splits)

lemma map_raising_all_Inr:
  "\<forall>x\<in>set xs. f x = Inr (g x) \<Longrightarrow> map_raising f xs = Inr (map g xs)"
  by (induction xs) auto

lemma simulate_call_too_deep:
  assumes "\<exists>d\<in>set (sim_cycle_depths task). d > (int (length (sim_circuit task)) - 1) div 2"
  shows "Simulate_2q_XEB_Circuit_call simulate_moment_steps task = Inl ValueError"
proof -
  from assms have ne: "set (sim_cycle_depths task) \<noteq> {}"
    by auto
  have "Max (set (sim_cycle_depths task)) > (int (length (sim_circuit task)) - 1) div 2"
    using assms ne by (subst Max_gr_iff) auto
  then show ?thesis
    by (simp add: Simulate_2q_XEB_Circuit_call_def Let_def)
qed

lemma simulate_call_fits:
  assumes "sim_cycle_depths task \<noteq> []"
    and "\<forall>d\<in>set (sim_cycle_depths task). d \<le> (int (length (sim_circuit task)) - 1) div 2"
  shows "Simulate_2q_XEB_Circuit_call simulate_moment_steps task =
           (case simulate_moment_steps (sim_circuit task) (sim_param_resolver task) of
              Inl err \<Rightarrow> Inl err
            | Inr step_results \<Rightarrow>
                Inr (simulate_records (sim_circuit_i task) (set (sim_cycle_depths task))
                       (enumerate_list step_results) []))"
proof -
  from assms(1) have ne: "set (sim_cycle_depths task) \<noteq> {}"
    by simp
  have "\<not> Max (set (sim_cycle_depths task)) > (int (length (sim_circuit task)) - 1) div 2"
    using assms(2) ne by (subst Max_gr_iff) (auto simp: not_less)
  then show ?thesis using ne
    by (simp add: Simulate_2q_XEB_Circuit_call_def Let_def)
qed

lemma simulate_call_error:
  assumes "Simulate_2q_XEB_Circuit_call simulate_moment_steps task = Inl err"
  shows "err = ValueError
         \<or> simulate_moment_steps (sim_circuit task) (sim_param_resolver task) = Inl err"
  using assms
  by (auto simp: Simulate_2q_XEB_Circuit_call_def Let_def split: if_splits sum.splits)

lemma in_set_enumerate_list:
  "(i, x) \<in> set (enumerate_list xs) \<longleftrightarrow> i < length xs \<and> xs ! i = x"
proof
  assume "(i, x) \<in> set (enumerate_list xs)"
  then show "i < length xs \<and> xs ! i = x"
    by (auto simp: enumerate_list_def in_set_zip)
next
  assume h: "i < length xs \<and> xs ! i = x"
  then have "[0..<length xs] ! i = i \<and> xs ! i = x \<and> i < length [0..<length xs]
             \<and> i < length xs"
    by simp
  then show "(i, x) \<in> set (enumerate_list xs)"
    unfolding enumerate_list_def in_set_zip by (intro exI [of _ i]) simp
qed

text \<open>
  Claim C4. For every circuit that the simulation scheduler processes, the largest
  feasible cycle depth is the number of layers minus one, divided by two (integer
  division). The per-circuit task fails with \<^verbatim>\<open>ValueError\<close> if a requested cycle depth
  exceeds it, before the simulator is asked for any state vector: the failure does not
  depend on the simulator, which might itself have failed. When no requested depth
  exceeds the bound (and there is a requested depth), the task goes on to the simulator.
  The scheduler fails whenever one of its tasks does.
\<close>

theorem simulate_depth_check:
  "((\<exists>d\<in>set (sim_cycle_depths task). d > (int (length (sim_circuit task)) - 1) div 2) \<longrightarrow>
      Simulate_2q_XEB_Circuit_call simulate_moment_steps task = Inl ValueError)
   \<and> (sim_cycle_depths task \<noteq> []
        \<and> (\<forall>d\<in>set (sim_cycle_depths task). d \<le> (int (length (sim_circuit task)) - 1) div 2)
      \<longrightarrow>
      Simulate_2q_XEB_Circuit_call simulate_moment_steps task =
        (case simulate_moment_steps (sim_circuit task) (sim_param_resolver task) of
           Inl err \<Rightarrow> Inl err
         | Inr step_results \<Rightarrow>
             Inr (simulate_records (sim_circuit_i task) (set (sim_cycle_depths task))
                    (enumerate_list step_results) [])))
   \<and> ((\<exists>circuit\<in>set circuits. \<exists>d\<in>set cycle_depths. d > (int (length circuit) - 1) div 2)
      \<longrightarrow>
        (\<exists>err. simulate_2q_xeb_circuits simulate_moment_steps circuits cycle_depths
                  param_resolver = Inl err)
      \<and> ((\<forall>circuit. \<exists>step_results.
              simulate_moment_steps circuit param_resolver = Inr step_results) \<longrightarrow>
           simulate_2q_xeb_circuits simulate_moment_steps circuits cycle_depths param_resolver
             = Inl ValueError))"
proof (intro conjI impI)
  assume "\<exists>d\<in>set (sim_cycle_depths task). d > (int (length (sim_circuit task)) - 1) div 2"
  then show "Simulate_2q_XEB_Circuit_call simulate_moment_steps task = Inl ValueError"
    by (rule simulate_call_too_deep)
next
  assume "sim_cycle_depths task \<noteq> []
        \<and> (\<forall>d\<in>set (sim_cycle_depths task). d \<le> (int (length (sim_circuit task)) - 1) div 2)"
  then show "Simulate_2q_XEB_Circuit_call simulate_moment_steps task =
        (case simulate_moment_steps (sim_circuit task) (sim_param_resolver task) of
           Inl err \<Rightarrow> Inl err
         | Inr step_results \<Rightarrow>
             Inr (simulate_records (sim_circuit_i task) (set (sim_cycle_depths task))
                    (enumerate_list step_results) []))"
    by (intro simulate_call_fits) blast+
next
  let ?mk = "\<lambda>(circuit_index, circuit).
               \<lparr>sim_circuit_i = circuit_index, sim_cycle_depths = cycle_depths,
                sim_circuit = circuit, sim_param_resolver = param_resolver\<rparr>"
  let ?tasks = "map ?mk (enumerate_list circuits)"
  assume deep: "\<exists>circuit\<in>set circuits. \<exists>d\<in>set cycle_depths.
                  d > (int (length circuit) - 1) div 2"
  then obtain circuit d where c: "circuit \<in> set circuits" and d: "d \<in> set cycle_depths"
    and gt: "d > (int (length circuit) - 1) div 2"
    by blast
  from c obtain i where i: "i < length circuits" "circuits ! i = circuit"
    by (auto simp: in_set_conv_nth)
  then have "(i, circuit) \<in> set (enumerate_list circuits)"
    by (simp add: in_set_enumerate_list)
  then have mem: "?mk (i, circuit) \<in> set ?tasks"
    unfolding set_map by (rule imageI)
  have "\<exists>d\<in>set (sim_cycle_depths (?mk (i, circuit))).
          d > (int (length (sim_circuit (?mk (i, circuit)))) - 1) div 2"
    using d gt by simp blast
  then have "Simulate_2q_XEB_Circuit_call simulate_moment_steps (?mk (i, circuit))
               = Inl ValueError"
    by (rule simulate_call_too_deep)
  from map_raising_fails [of "?mk (i, circuit)" ?tasks
         "Simulate_2q_XEB_Circuit_call simulate_moment_steps" ValueError, OF mem this]
  obtain err where err:
    "map_raising (Simulate_2q_XEB_Circuit_call simulate_moment_steps) ?tasks = Inl err"
    by (elim exE)
  then have res: "simulate_2q_xeb_circuits simulate_moment_steps circuits cycle_depths
                    param_resolver = Inl err"
    by (simp add: simulate_2q_xeb_circuits_def Let_def)
  then show "\<exists>err. simulate_2q_xeb_circuits simulate_moment_steps circuits cycle_depths
                  param_resolver = Inl err"
    by blast
  assume total: "\<forall>circuit. \<exists>step_results.
                   simulate_moment_steps circuit param_resolver = Inr step_results"
  from map_raising_Inl_elem [OF err] obtain t where t: "t \<in> set ?tasks"
    and terr: "Simulate_2q_XEB_Circuit_call simulate_moment_steps t = Inl err"
    by blast
  from t obtain p where p: "t = ?mk p"
    unfolding set_map by (elim imageE)
  have pr: "sim_param_resolver t = param_resolver"
    unfolding p by (cases p) simp
  from total obtain step_results where
    "simulate_moment_steps (sim_circuit t) param_resolver = Inr step_results"
    by blast
  with simulate_call_error [OF terr] have "err = ValueError"
    unfolding pr by simp
  with res show "simulate_2q_xeb_circuits simulate_moment_steps circuits cycle_depths
                   param_resolver = Inl ValueError"
    by simp
qed

theorem simulate_depth_check_witness:
  "Simulate_2q_XEB_Circuit_call (\<lambda>circuit resolver. Inl CollaboratorError)
      \<lparr>sim_circuit_i = 0, sim_cycle_depths = [1, 2],
       sim_circuit = [[GateOperation (Gate (0::nat)) [0::nat], GateOperation (Gate 1) [1]],
                      [GateOperation (Gate 2) [0, 1]],
                      [GateOperation (Gate 3) [0], GateOperation (Gate 4) [1]]],
       sim_param_resolver = ()\<rparr>
     = Inl ValueError
   \<and> simulate_2q_xeb_circuits (\<lambda>circuit resolver. Inr (map (\<lambda>moment. [1, 0, 0, 0]) circuit))
      [[[GateOperation (Gate (0::nat)) [0::nat], GateOperation (Gate 1) [1]],
        [GateOperation (Gate 2) [0, 1]],
        [GateOperation (Gate 3) [0], GateOperation (Gate 4) [1]]]] [1, 2] ()
     = Inl ValueError
   \<and> Simulate_2q_XEB_Circuit_call
      (\<lambda>circuit resolver. Inr (map (\<lambda>moment. [1, 0, 0, 0]) circuit))
      \<lparr>sim_circuit_i = 0, sim_cycle_depths = [1],
       sim_circuit = [[GateOperation (Gate (0::nat)) [0::nat], GateOperation (Gate 1) [1]],
                      [GateOperation (Gate 2) [0, 1]],
                      [GateOperation (Gate 3) [0], GateOperation (Gate 4) [1]]],
       sim_param_resolver = ()\<rparr>
     = Inr [\<lparr>circuit_i = 0, cycle_depth = 1, simulated_record.pure_probs = [1, 0, 0, 0]\<rparr>]"
proof -
  let ?c3 = "[[GateOperation (Gate (0::nat)) [0::nat], GateOperation (Gate 1) [1]],
              [GateOperation (Gate 2) [0, 1]],
              [GateOperation (Gate 3) [0], GateOperation (Gate 4) [1]]]"
  let ?sim = "\<lambda>(circuit :: (nat, nat) circuit) (resolver :: unit).
                 (Inr (map (\<lambda>moment. [1, 0, 0, 0]) circuit) :: error + complex list list)"
  let ?fail = "\<lambda>(circuit :: (nat, nat) circuit) (resolver :: unit).
                 (Inl CollaboratorError :: error + complex list list)"
  let ?deep = "\<lparr>sim_circuit_i = 0, sim_cycle_depths = [1, 2], sim_circuit = ?c3,
                sim_param_resolver = ()\<rparr>"
  let ?fits = "\<lparr>sim_circuit_i = 0, sim_cycle_depths = [1], sim_circuit = ?c3,
                sim_param_resolver = ()\<rparr>"
  have a: "Simulate_2q_XEB_Circuit_call ?fail ?deep = Inl ValueError"
    using simulate_depth_check [of ?deep ?fail "[?c3]" "[1, 2]" "()"] by simp
  have b: "simulate_2q_xeb_circuits ?sim [?c3] [1, 2] () = Inl ValueError"
    using simulate_depth_check [of ?deep ?sim "[?c3]" "[1, 2]" "()"] by simp
  have c: "Simulate_2q_XEB_Circuit_call ?sim ?fits
             = Inr [\<lparr>circuit_i = 0, cycle_depth = 1,
                     simulated_record.pure_probs = [1, 0, 0, 0]\<rparr>]"
    using simulate_depth_check [of ?fits ?sim "[?c3]" "[1]" "()"]
    by (simp add: enumerate_list_def abs_squared_def upt_rec [of 0] upt_rec [of 1]
          upt_rec [of 2])
  from a b c show ?thesis by (intro conjI)
qed

subsection \<open>The task list of the sampling scheduler\<close>

text \<open>The task that the sampling scheduler builds for a cycle depth and a circuit.\<close>

lemma py_slice_to_prefix:
  "0 \<le> k \<Longrightarrow> k \<le> int (length xs) \<Longrightarrow> py_slice_to xs k = take (nat k) xs"
  by (simp add: py_slice_to_def py_slice_bound_def)

lemma sample_tasks_for_depth_fits:
  "\<forall>(i, c)\<in>set es. 2 * d + 1 \<le> int (length c) \<Longrightarrow>
     sample_tasks_for_depth q0 q1 d es =
       Inr (map (\<lambda>(i, c). \<lparr>task_cycle_depth = d, task_circuit_i = i,
                              prepared_circuit =
                                circuit_add (py_slice_to c (2 * d + 1)) (measure q0 q1)\<rparr>) es)"
  by (induction es) (auto simp: Let_def mult.commute)

lemma sample_tasks_for_depth_short:
  "(i, c) \<in> set es \<Longrightarrow> 2 * d + 1 > int (length c) \<Longrightarrow>
     sample_tasks_for_depth q0 q1 d es = Inl AssertionError"
proof (induction es)
  case Nil
  then show ?case by simp
next
  case (Cons e es)
  obtain j c' where e: "e = (j, c')"
    by (cases e)
  show ?case
  proof (cases "d * 2 + 1 \<le> int (length c')")
    case False
    then show ?thesis by (simp add: e Let_def)
  next
    case True
    with Cons.prems e have "(i, c) \<in> set es"
      by auto
    then have "sample_tasks_for_depth q0 q1 d es = Inl AssertionError"
      using Cons.prems(2) by (rule Cons.IH)
    then show ?thesis using True by (simp add: e Let_def)
  qed
qed

lemma sample_tasks_for_depth_error:
  "sample_tasks_for_depth q0 q1 d es = Inl err \<Longrightarrow> err = AssertionError"
  by (induction es) (auto simp: Let_def split: sum.splits if_splits)

lemma sample_tasks_error:
  "sample_tasks q0 q1 circuits ds = Inl err \<Longrightarrow> err = AssertionError"
  by (induction ds) (auto split: sum.splits dest: sample_tasks_for_depth_error)

lemma sample_tasks_fits:
  "\<forall>d\<in>set ds. \<forall>c\<in>set circuits. 2 * d + 1 \<le> int (length c) \<Longrightarrow>
     sample_tasks q0 q1 circuits ds =
       Inr (concat (map (\<lambda>d. map (\<lambda>(i, c). \<lparr>task_cycle_depth = d, task_circuit_i = i,
                              prepared_circuit =
                                circuit_add (py_slice_to c (2 * d + 1)) (measure q0 q1)\<rparr>)
                                (enumerate_list circuits)) ds))"
proof (induction ds)
  case Nil
  then show ?case by simp
next
  case (Cons d ds)
  have "\<forall>(i, c)\<in>set (enumerate_list circuits). 2 * d + 1 \<le> int (length c)"
    using Cons.prems by (auto simp: in_set_enumerate_list)
  then have "sample_tasks_for_depth q0 q1 d (enumerate_list circuits) =
       Inr (map (\<lambda>(i, c). \<lparr>task_cycle_depth = d, task_circuit_i = i,
                              prepared_circuit =
                                circuit_add (py_slice_to c (2 * d + 1)) (measure q0 q1)\<rparr>)
              (enumerate_list circuits))"
    by (rule sample_tasks_for_depth_fits)
  moreover have "sample_tasks q0 q1 circuits ds =
       Inr (concat (map (\<lambda>d. map (\<lambda>(i, c). \<lparr>task_cycle_depth = d, task_circuit_i = i,
                              prepared_circuit =
                                circuit_add (py_slice_to c (2 * d + 1)) (measure q0 q1)\<rparr>)
                                (enumerate_list circuits)) ds))"
    using Cons.prems by (intro Cons.IH) simp
  ultimately show ?case by simp
qed

lemma sample_tasks_short:
  "\<exists>d\<in>set ds. \<exists>c\<in>set circuits. 2 * d + 1 > int (length c) \<Longrightarrow>
     sample_tasks q0 q1 circuits ds = Inl AssertionError"
proof (induction ds)
  case Nil
  then show ?case by simp
next
  case (Cons d ds)
  show ?case
  proof (cases "\<exists>c\<in>set circuits. 2 * d + 1 > int (length c)")
    case True
    then obtain c where c: "c \<in> set circuits" "2 * d + 1 > int (length c)"
      by blast
    from c(1) obtain i where "i < length circuits" "circuits ! i = c"
      by (auto simp: in_set_conv_nth)
    then have "(i, c) \<in> set (enumerate_list circuits)"
      by (simp add: in_set_enumerate_list)
    then have "sample_tasks_for_depth q0 q1 d (enumerate_list circuits) = Inl AssertionError"
      using c(2) by (rule sample_tasks_for_depth_short)
    then show ?thesis by simp
  next
    case False
    with Cons.prems have "\<exists>d\<in>set ds. \<exists>c\<in>set circuits. 2 * d + 1 > int (length c)"
      by auto
    then have rest: "sample_tasks q0 q1 circuits ds = Inl AssertionError"
      by (rule Cons.IH)
    show ?thesis
    proof (cases "sample_tasks_for_depth q0 q1 d (enumerate_list circuits)")
      case (Inl err)
      then show ?thesis using sample_tasks_for_depth_error [OF Inl] by simp
    next
      case (Inr tasks)
      then show ?thesis using rest by simp
    qed
  qed
qed

lemma enumerate_list_nth:
  "i < length xs \<Longrightarrow> enumerate_list xs ! i = (i, xs ! i)"
  by (simp add: enumerate_list_def)

lemma length_enumerate_list: "length (enumerate_list xs) = length xs"
  by (simp add: enumerate_list_def)

lemma map_enumerate_list:
  "map (\<lambda>(i, c). f i) (enumerate_list xs) = map f [0..<length xs]"
  by (rule nth_equalityI) (simp_all add: length_enumerate_list enumerate_list_nth)

lemma sample_task_keys:
  assumes "\<forall>d\<in>set ds. \<forall>c\<in>set circuits. 2 * d + 1 \<le> int (length c)"
    and "sample_tasks q0 q1 circuits ds = Inr tasks"
  shows "map (\<lambda>t. (task_circuit_i t, task_cycle_depth t)) tasks
           = concat (map (\<lambda>d. map (\<lambda>i. (i, d)) [0..<length circuits]) ds)"
proof -
  let ?mk = "\<lambda>d (i, c). \<lparr>task_cycle_depth = d, task_circuit_i = i,
                              prepared_circuit =
                                circuit_add (py_slice_to c (2 * d + 1)) (measure q0 q1)\<rparr>"
  have one: "map (\<lambda>t. (task_circuit_i t, task_cycle_depth t))
               (map (?mk d) (enumerate_list circuits))
             = map (\<lambda>i. (i, d)) [0..<length circuits]" for d
    by (rule nth_equalityI) (simp_all add: length_enumerate_list enumerate_list_nth)
  have "tasks = concat (map (\<lambda>d. map (?mk d) (enumerate_list circuits)) ds)"
    using assms(2) unfolding sample_tasks_fits [OF assms(1)] by simp
  then have "map (\<lambda>t. (task_circuit_i t, task_cycle_depth t)) tasks
               = concat (map (\<lambda>d. map (\<lambda>t. (task_circuit_i t, task_cycle_depth t))
                                     (map (?mk d) (enumerate_list circuits))) ds)"
    by (simp only: map_concat map_map comp_def)
  then show ?thesis
    by (simp only: one)
qed

subsection \<open>The records of the simulation scheduler\<close>

lemma simulate_records_filter:
  "simulate_records i D es acc =
     acc @ map (\<lambda>(m, psi). \<lparr>circuit_i = i, cycle_depth = int m div 2,
                              simulated_record.pure_probs = map abs_squared psi\<rparr>)
             (filter (\<lambda>(m, psi). even m \<and> int m div 2 \<in> D) es)"
proof (induction es arbitrary: acc)
  case Nil
  then show ?case by simp
next
  case (Cons e es)
  obtain m psi where e: "e = (m, psi)"
    by (cases e)
  show ?case
    unfolding e by (simp add: Cons.IH Let_def odd_iff_mod_2_eq_one)
qed

lemma simulate_record_keys:
  "map (\<lambda>r. (circuit_i r, cycle_depth r))
       (simulate_records i D (enumerate_list step_results) [])
     = map (\<lambda>m. (i, int m div 2))
         (filter (\<lambda>m. even m \<and> int m div 2 \<in> D) [0..<length step_results])"
proof -
  let ?P = "\<lambda>m. even m \<and> int m div 2 \<in> D"
  have fst: "map fst (enumerate_list step_results) = [0..<length step_results]"
    by (simp add: enumerate_list_def)
  have "map (\<lambda>r. (circuit_i r, cycle_depth r))
          (simulate_records i D (enumerate_list step_results) [])
        = map (\<lambda>e. (i, int (fst e) div 2))
            (filter (\<lambda>e. ?P (fst e)) (enumerate_list step_results))"
    by (simp add: simulate_records_filter case_prod_unfold comp_def)
  also have "\<dots> = map (\<lambda>m. (i, int m div 2))
                     (map fst (filter (\<lambda>e. ?P (fst e)) (enumerate_list step_results)))"
    by (simp add: comp_def)
  also have "map fst (filter (\<lambda>e. ?P (fst e)) (enumerate_list step_results))
               = filter ?P (map fst (enumerate_list step_results))"
    by (simp add: filter_map comp_def)
  finally show ?thesis by (simp only: fst)
qed

lemma even_half_inject:
  "even (a::nat) \<Longrightarrow> even b \<Longrightarrow> int a div 2 = int b div 2 \<Longrightarrow> a = b"
  by presburger

lemma even_depths_sorted:
  fixes D :: "int set"
  assumes fin: "finite D"
    and fits: "\<forall>d\<in>D. 0 \<le> d \<and> 2 * d + 1 \<le> int L"
  shows "map (\<lambda>m. int m div 2) (filter (\<lambda>m. even m \<and> int m div 2 \<in> D) [0..<L])
           = sorted_list_of_set D"
proof -
  let ?P = "\<lambda>m. even m \<and> int m div 2 \<in> D"
  let ?f = "\<lambda>m::nat. int m div 2"
  let ?xs = "map ?f (filter ?P [0..<L])"
  have "sorted_wrt (\<le>) (filter ?P [0..<L])"
    by (intro sorted_wrt_filter) simp
  then have "sorted_wrt (\<lambda>a b. ?f a \<le> ?f b) (filter ?P [0..<L])"
    by (rule sorted_wrt_mono_rel [rotated]) (simp add: zdiv_mono1)
  then have sorted: "sorted ?xs"
    by (simp add: sorted_wrt_map)
  have "inj_on ?f (set (filter ?P [0..<L]))"
    by (rule inj_onI) (simp add: even_half_inject)
  then have distinct: "distinct ?xs"
    by (simp add: distinct_map)
  have set: "set ?xs = D"
  proof
    show "set ?xs \<subseteq> D" by auto
    show "D \<subseteq> set ?xs"
    proof
      fix d assume d: "d \<in> D"
      with fits have "0 \<le> d" "2 * d + 1 \<le> int L" by auto
      then have lt: "nat (2 * d) < L" and half: "int (nat (2 * d)) div 2 = d"
        by simp_all
      have ev: "even (nat (2 * d))"
        using \<open>0 \<le> d\<close> by (simp add: even_nat_iff)
      from lt ev half d have mem: "nat (2 * d) \<in> set (filter ?P [0..<L])"
        by simp
      have "?f (nat (2 * d)) \<in> ?f ` set (filter ?P [0..<L])"
        using mem by (rule imageI)
      then show "d \<in> set ?xs"
        unfolding set_map half .
    qed
  qed
  have "sorted_list_of_set (set ?xs) = ?xs"
    using sorted distinct by (rule sorted_list_of_set.idem_if_sorted_distinct)
  then show ?thesis by (simp only: set)
qed

lemma simulate_call_keys:
  assumes ne: "ds \<noteq> []"
    and fits: "\<forall>d\<in>set ds. 0 \<le> d \<and> 2 * d + 1 \<le> int (length c)"
    and sim: "simulate_moment_steps c resolver = Inr step_results"
    and len: "length step_results = length c"
  shows "\<exists>records.
           Simulate_2q_XEB_Circuit_call simulate_moment_steps
             \<lparr>sim_circuit_i = i, sim_cycle_depths = ds, sim_circuit = c,
              sim_param_resolver = resolver\<rparr> = Inr records
         \<and> map (\<lambda>r. (circuit_i r, cycle_depth r)) records
             = map (\<lambda>d. (i, d)) (sorted_list_of_set (set ds))"
proof -
  let ?task = "\<lparr>sim_circuit_i = i, sim_cycle_depths = ds, sim_circuit = c,
                sim_param_resolver = resolver\<rparr>"
  let ?records = "simulate_records i (set ds) (enumerate_list step_results) []"
  have bound: "\<forall>d\<in>set (sim_cycle_depths ?task).
                 d \<le> (int (length (sim_circuit ?task)) - 1) div 2"
    using fits by auto
  have ne': "sim_cycle_depths ?task \<noteq> []"
    using ne by simp
  have call: "Simulate_2q_XEB_Circuit_call simulate_moment_steps ?task = Inr ?records"
    unfolding simulate_call_fits [OF ne' bound] using sim by simp
  have "map (\<lambda>r. (circuit_i r, cycle_depth r)) ?records
          = map (\<lambda>m. (i, int m div 2))
              (filter (\<lambda>m. even m \<and> int m div 2 \<in> set ds) [0..<length c])"
    unfolding simulate_record_keys len ..
  also have "\<dots> = map (\<lambda>d. (i, d))
                     (map (\<lambda>m. int m div 2)
                        (filter (\<lambda>m. even m \<and> int m div 2 \<in> set ds) [0..<length c]))"
    by (simp add: comp_def)
  also have "map (\<lambda>m. int m div 2)
               (filter (\<lambda>m. even m \<and> int m div 2 \<in> set ds) [0..<length c])
             = sorted_list_of_set (set ds)"
    using fits by (intro even_depths_sorted) simp_all
  finally show ?thesis using call by blast
qed

lemma map_raising_nth:
  assumes "length ys = length xs" and "\<forall>j<length xs. f (xs ! j) = Inr (ys ! j)"
  shows "map_raising f xs = Inr ys"
  using assms
proof (induction xs arbitrary: ys)
  case Nil
  then show ?case by simp
next
  case (Cons x xs)
  then obtain y ys' where ys: "ys = y # ys'"
    by (cases ys) auto
  from Cons.prems(2) have head: "f x = Inr y"
    unfolding ys by (auto dest: spec [of _ 0])
  have "\<forall>j<length xs. f (xs ! j) = Inr (ys' ! j)"
  proof (intro allI impI)
    fix j assume "j < length xs"
    then have "f ((x # xs) ! Suc j) = Inr (ys ! Suc j)"
      using Cons.prems(2) by (auto dest: spec [of _ "Suc j"])
    then show "f (xs ! j) = Inr (ys' ! j)"
      unfolding ys by simp
  qed
  moreover have "length ys' = length xs"
    using Cons.prems(1) unfolding ys by simp
  ultimately have "map_raising f xs = Inr ys'"
    by (intro Cons.IH)
  with head show ?case unfolding ys by simp
qed

lemma concat_rows_nonempty:
  "xs \<noteq> [] \<Longrightarrow> ys \<noteq> [] \<Longrightarrow> concat (map (\<lambda>a. map (f a) ys) xs) \<noteq> []"
  by (cases xs) simp_all

lemma simulate_2q_keys:
  assumes ne: "cycle_depths \<noteq> []"
    and nonempty: "circuits \<noteq> []"
    and fits: "\<forall>d\<in>set cycle_depths.
                 0 \<le> d \<and> (\<forall>circuit\<in>set circuits. 2 * d + 1 \<le> int (length circuit))"
    and sim: "\<forall>circuit\<in>set circuits. \<exists>step_results.
                 simulate_moment_steps circuit param_resolver = Inr step_results
               \<and> length step_results = length circuit"
  shows "\<exists>records.
           simulate_2q_xeb_circuits simulate_moment_steps circuits cycle_depths param_resolver
             = Inr records
         \<and> map (\<lambda>r. (circuit_i r, cycle_depth r)) records
             = concat (map (\<lambda>i. map (\<lambda>d. (i, d)) (sorted_list_of_set (set cycle_depths)))
                         [0..<length circuits])"
proof -
  let ?mk = "\<lambda>(circuit_index, circuit).
               \<lparr>sim_circuit_i = circuit_index, sim_cycle_depths = cycle_depths,
                sim_circuit = circuit, sim_param_resolver = param_resolver\<rparr>"
  let ?tasks = "map ?mk (enumerate_list circuits)"
  let ?call = "Simulate_2q_XEB_Circuit_call simulate_moment_steps"
  let ?key = "\<lambda>r::simulated_record. (circuit_i r, cycle_depth r)"
  let ?sorted = "sorted_list_of_set (set cycle_depths)"
  have each: "\<exists>records. ?call (?tasks ! j) = Inr records
                \<and> map ?key records = map (\<lambda>d. (j, d)) ?sorted"
    if j: "j < length circuits" for j
  proof -
    have c: "circuits ! j \<in> set circuits"
      using j by simp
    with sim obtain step_results where
      s: "simulate_moment_steps (circuits ! j) param_resolver = Inr step_results"
      and l: "length step_results = length (circuits ! j)"
      by blast
    have f: "\<forall>d\<in>set cycle_depths. 0 \<le> d \<and> 2 * d + 1 \<le> int (length (circuits ! j))"
      using fits c by blast
    have t: "?tasks ! j = \<lparr>sim_circuit_i = j, sim_cycle_depths = cycle_depths,
                           sim_circuit = circuits ! j, sim_param_resolver = param_resolver\<rparr>"
      using j by (simp add: length_enumerate_list enumerate_list_nth)
    show ?thesis
      unfolding t
      by (rule simulate_call_keys [where simulate_moment_steps = simulate_moment_steps
            and c = "circuits ! j" and resolver = param_resolver, OF ne f s l])
  qed
  define nested where "nested = map (\<lambda>j. projr (?call (?tasks ! j))) [0..<length circuits]"
  have lt: "length ?tasks = length circuits"
    by (simp add: length_enumerate_list)
  have nth: "?call (?tasks ! j) = Inr (nested ! j) \<and> map ?key (nested ! j) = map (\<lambda>d. (j, d)) ?sorted"
    if j: "j < length circuits" for j
  proof -
    from each [OF j] obtain records where r: "?call (?tasks ! j) = Inr records"
      and k: "map ?key records = map (\<lambda>d. (j, d)) ?sorted"
      by blast
    have "nested ! j = records"
      using j r by (simp add: nested_def)
    with r k show ?thesis by simp
  qed
  have "map_raising ?call ?tasks = Inr nested"
  proof (rule map_raising_nth)
    show "length nested = length ?tasks"
      by (simp add: nested_def length_enumerate_list)
    show "\<forall>j<length ?tasks. ?call (?tasks ! j) = Inr (nested ! j)"
    proof (intro allI impI)
      fix j assume "j < length ?tasks"
      then have "j < length circuits"
        by (simp only: lt)
      from nth [OF this] show "?call (?tasks ! j) = Inr (nested ! j)"
        by (rule conjunct1)
    qed
  qed
  then have raised: "map_raising ?call ?tasks = Inr nested" .
  have len_nested: "length nested = length circuits"
    by (simp add: nested_def)
  have "map (map ?key) nested = map (\<lambda>i. map (\<lambda>d. (i, d)) ?sorted) [0..<length circuits]"
  proof (rule nth_equalityI)
    show "length (map (map ?key) nested)
            = length (map (\<lambda>i. map (\<lambda>d. (i, d)) ?sorted) [0..<length circuits])"
      by (simp add: len_nested)
    fix j assume "j < length (map (map ?key) nested)"
    then have j: "j < length circuits"
      by (simp add: len_nested)
    from nth [OF j] have "map ?key (nested ! j) = map (\<lambda>d. (j, d)) ?sorted"
      by (rule conjunct2)
    then show "map (map ?key) nested ! j
                 = map (\<lambda>i. map (\<lambda>d. (i, d)) ?sorted) [0..<length circuits] ! j"
      using j by (simp add: len_nested)
  qed
  then have keys: "map ?key (concat nested)
               = concat (map (\<lambda>i. map (\<lambda>d. (i, d)) ?sorted) [0..<length circuits])"
    by (simp only: map_concat)
  have "?sorted \<noteq> []"
    using ne by simp
  moreover have "[0..<length circuits] \<noteq> []"
    using nonempty by simp
  ultimately have "concat (map (\<lambda>i. map (\<lambda>d. (i, d)) ?sorted) [0..<length circuits]) \<noteq> []"
    by (intro concat_rows_nonempty)
  then have "map ?key (concat nested) \<noteq> []"
    unfolding keys .
  then have "concat nested \<noteq> []"
    by simp
  then have res: "simulate_2q_xeb_circuits simulate_moment_steps circuits cycle_depths
                    param_resolver = Inr (concat nested)"
    by (simp add: simulate_2q_xeb_circuits_def Let_def raised DataFrame_set_index_def)
  from res keys show ?thesis
    by (intro exI [of _ "concat nested"] conjI)
qed

subsection \<open>The batches of the sampling scheduler\<close>

lemma sample_records_keys:
  "\<forall>z\<in>set zs. length (snd z) = 1 \<Longrightarrow>
     \<exists>records. sample_records zs = Inr records
       \<and> map (\<lambda>r. (circuit_i r, cycle_depth r)) records
           = map (\<lambda>z. (task_circuit_i (fst z), task_cycle_depth (fst z))) zs"
proof (induction zs)
  case Nil
  then show ?case by simp
next
  case (Cons z zs)
  obtain task nested where z: "z = (task, nested)"
    by (cases z)
  from Cons.prems z have "length nested = 1"
    by simp
  then obtain result where nested: "nested = [result]"
    by (cases nested) auto
  from Cons.prems have "\<forall>z\<in>set zs. length (snd z) = 1"
    by simp
  from Cons.IH [OF this] obtain records where
    r: "sample_records zs = Inr records"
    and k: "map (\<lambda>r. (circuit_i r, cycle_depth r)) records
              = map (\<lambda>z. (task_circuit_i (fst z), task_cycle_depth (fst z))) zs"
    by blast
  show ?case
    unfolding z nested by (simp add: r k Let_def)
qed

lemma SampleInBatches_call_keys:
  assumes run: "run_batch (map prepared_circuit tasks) repetitions = Inr results"
    and len: "length results = length tasks"
    and single: "\<forall>nested\<in>set results. length nested = 1"
  shows "\<exists>records. SampleInBatches_call run_batch repetitions tasks = Inr records
           \<and> map (\<lambda>r. (circuit_i r, cycle_depth r)) records
               = map (\<lambda>t. (task_circuit_i t, task_cycle_depth t)) tasks"
proof -
  have "\<forall>z\<in>set (zip tasks results). length (snd z) = 1"
    using single by (auto dest: set_zip_rightD)
  from sample_records_keys [OF this] obtain records where
    r: "sample_records (zip tasks results) = Inr records"
    and k: "map (\<lambda>r. (circuit_i r, cycle_depth r)) records
              = map (\<lambda>z. (task_circuit_i (fst z), task_cycle_depth (fst z)))
                  (zip tasks results)"
    by blast
  have "map (\<lambda>z. (task_circuit_i (fst z), task_cycle_depth (fst z))) (zip tasks results)
          = map (\<lambda>t. (task_circuit_i t, task_cycle_depth t)) (map fst (zip tasks results))"
    by (simp add: comp_def)
  also have "map fst (zip tasks results) = tasks"
    using len by simp
  finally have k': "map (\<lambda>r. (circuit_i r, cycle_depth r)) records
                      = map (\<lambda>t. (task_circuit_i t, task_cycle_depth t)) tasks"
    using k by simp
  have "SampleInBatches_call run_batch repetitions tasks = Inr records"
    using run len r by (simp add: SampleInBatches_call_def Let_def)
  with k' show ?thesis
    by (intro exI [of _ records] conjI)
qed

lemma py_range_positive:
  "0 < step \<Longrightarrow>
     py_range 0 stop step
       = Inr (map (\<lambda>k. int k * step) [0..<nat ((stop + step - 1) div step)])"
  by (simp add: py_range_def)

lemma py_slice_batch:
  assumes "0 < b"
  shows "py_slice xs (int k * b) (int k * b + b) = take (nat b) (drop (k * nat b) xs)"
proof -
  have lo: "nat (int k * b) = k * nat b"
    using assms by (simp add: nat_mult_distrib)
  have hi: "nat (int k * b + b) = k * nat b + nat b"
    using assms by (simp add: nat_add_distrib nat_mult_distrib)
  have "0 \<le> int k * b"
    using assms by (intro mult_nonneg_nonneg) simp_all
  then have nonneg: "\<not> int k * b < 0" "\<not> int k * b + b < 0"
    using assms by linarith+
  have "py_slice xs (int k * b) (int k * b + b)
          = drop (min (k * nat b) (length xs)) (take (min (k * nat b + nat b) (length xs)) xs)"
    unfolding py_slice_def py_slice_bound_def using nonneg by (simp only: if_False lo hi)
  also have "\<dots> = drop (k * nat b) (take (k * nat b + nat b) xs)"
    by (simp add: min_def)
  also have "\<dots> = take (nat b) (drop (k * nat b) xs)"
    by (simp add: drop_take)
  finally show ?thesis .
qed

lemma concat_batches_take:
  "concat (map (\<lambda>k. take B (drop (k * B) xs)) [0..<m]) = take (m * B) xs"
proof (induction m)
  case 0
  then show ?case by simp
next
  case (Suc m)
  have "take (m * B) xs @ take B (drop (m * B) xs) = take (m * B + B) xs"
    by (simp add: take_add)
  with Suc show ?case by (simp add: add.commute)
qed

lemma concat_batches:
  assumes "0 < b"
  shows "concat (map (\<lambda>k. take (nat b) (drop (k * nat b) xs))
                   [0..<nat ((int (length xs) + b - 1) div b)]) = xs"
proof -
  let ?m = "nat ((int (length xs) + b - 1) div b)"
  have "int (length xs) \<le> ((int (length xs) + b - 1) div b) * b"
  proof -
    have "(int (length xs) + b - 1) mod b \<le> b - 1"
      using assms by (simp add: zle_diff1_eq)
    moreover have "((int (length xs) + b - 1) div b) * b
                     = (int (length xs) + b - 1) - (int (length xs) + b - 1) mod b"
      by (simp add: minus_mod_eq_div_mult [symmetric])
    ultimately show ?thesis by linarith
  qed
  moreover have "0 \<le> (int (length xs) + b - 1) div b"
    using assms by (simp add: pos_imp_zdiv_nonneg_iff)
  ultimately have "int (length xs) \<le> int (?m * nat b)"
    using assms by simp
  then have "length xs \<le> ?m * nat b"
    by linarith
  then show ?thesis
    by (simp add: concat_batches_take)
qed

lemma collect_completed_all:
  "\<forall>k\<in>set order. futures ! k = Inr (g k) \<Longrightarrow>
     collect_completed futures order acc = Inr (acc @ concat (map g order))"
  by (induction order arbitrary: acc) simp_all

lemma mset_concat_map_permuted:
  assumes "mset order = mset order'"
  shows "mset (concat (map g order)) = mset (concat (map g order'))"
proof -
  have "mset (concat (map g zs)) = sum_mset (image_mset (\<lambda>k. mset (g k)) (mset zs))" for zs
  proof -
    have "mset (concat (map g zs)) = sum_list (map (\<lambda>k. mset (g k)) zs)"
      by (simp add: mset_concat comp_def)
    also have "\<dots> = sum_mset (mset (map (\<lambda>k. mset (g k)) zs))"
      by (simp only: sum_mset_sum_list)
    finally show ?thesis by simp
  qed
  then show ?thesis using assms by simp
qed

lemma length_concat_grid:
  "length (concat (map (\<lambda>d. map (f d) [0..<n]) ds)) = length ds * n"
  by (induction ds) simp_all

lemma sample_2q_records:
  fixes circuits :: "('g, 'q::linorder) circuit list"
  assumes verify: "verify_and_get_two_qubits_from_circuits circuits = Inr [q0, q1]"
    and ne: "cycle_depths \<noteq> []"
    and fits: "\<forall>d\<in>set cycle_depths. \<forall>c\<in>set circuits. 2 * d + 1 \<le> int (length c)"
    and sampler: "\<forall>cs. \<exists>results. run_batch cs repetitions = Inr results
                    \<and> length results = length cs
                    \<and> (\<forall>nested\<in>set results. length nested = 1)"
    and positive: "0 < batch_size"
    and perm: "mset completion_order
                 = mset [0..<nat ((int (length cycle_depths * length circuits) + batch_size - 1)
                                   div batch_size)]"
  shows "\<exists>records.
           sample_2q_xeb_circuits run_batch completion_order circuits cycle_depths repetitions
             batch_size = Inr records
         \<and> mset (map (\<lambda>r. (circuit_i r, cycle_depth r)) records)
             = mset (concat (map (\<lambda>d. map (\<lambda>i. (i, d)) [0..<length circuits]) cycle_depths))
         \<and> length records = length cycle_depths * length circuits"
proof -
  let ?key = "\<lambda>r::sampled_record. (circuit_i r, cycle_depth r)"
  let ?tkey = "\<lambda>t::('g, 'q) Sample2qXEBTask. (task_circuit_i t, task_cycle_depth t)"
  let ?grid = "concat (map (\<lambda>d. map (\<lambda>i. (i, d)) [0..<length circuits]) cycle_depths)"
  let ?call = "SampleInBatches_call run_batch repetitions"
  obtain tasks where tasks: "sample_tasks q0 q1 circuits cycle_depths = Inr tasks"
    using sample_tasks_fits [OF fits] by blast
  have tkeys: "map ?tkey tasks = ?grid"
    using fits tasks by (rule sample_task_keys)
  have "length (map ?tkey tasks) = length cycle_depths * length circuits"
    unfolding tkeys by (rule length_concat_grid)
  then have n_tasks: "length tasks = length cycle_depths * length circuits"
    by simp
  define m where "m = nat ((int (length tasks) + batch_size - 1) div batch_size)"
  define batch where "batch = (\<lambda>k. take (nat batch_size) (drop (k * nat batch_size) tasks))"
  have starts: "py_range 0 (int (length tasks)) batch_size
                  = Inr (map (\<lambda>k. int k * batch_size) [0..<m])"
    unfolding m_def by (rule py_range_positive [OF positive])
  have batched: "map (\<lambda>i. py_slice tasks i (i + batch_size))
                   (map (\<lambda>k. int k * batch_size) [0..<m]) = map batch [0..<m]"
    by (simp add: batch_def py_slice_batch [OF positive] comp_def)
  have all: "concat (map batch [0..<m]) = tasks"
    unfolding batch_def m_def by (rule concat_batches [OF positive])
  define g where "g = (\<lambda>k. projr (?call (batch k)))"
  have each: "?call (batch k) = Inr (g k) \<and> map ?key (g k) = map ?tkey (batch k)" for k
  proof -
    from sampler obtain results where
      run: "run_batch (map prepared_circuit (batch k)) repetitions = Inr results"
      and len: "length results = length (map prepared_circuit (batch k))"
      and single: "\<forall>nested\<in>set results. length nested = 1"
      by blast
    from len have len': "length results = length (batch k)"
      by simp
    from SampleInBatches_call_keys [where run_batch = run_batch and tasks = "batch k"
           and repetitions = repetitions, OF run len' single]
    obtain records where
      r: "?call (batch k) = Inr records" and k: "map ?key records = map ?tkey (batch k)"
      by blast
    from r have "g k = records"
      by (simp add: g_def)
    with r k show ?thesis by simp
  qed
  have set_order: "set completion_order = {0..<m}"
  proof -
    have "set_mset (mset completion_order) = set_mset (mset [0..<m])"
      using perm unfolding m_def n_tasks by simp
    then show ?thesis by simp
  qed
  have futures: "\<forall>k\<in>set completion_order. map ?call (map batch [0..<m]) ! k = Inr (g k)"
    unfolding set_order using each by simp
  have collected: "collect_completed (map ?call (map batch [0..<m])) completion_order []
                     = Inr ([] @ concat (map g completion_order))"
    using futures by (rule collect_completed_all)
  have "mset (concat (map g completion_order)) = mset (concat (map g [0..<m]))"
    using perm unfolding m_def n_tasks by (rule mset_concat_map_permuted)
  then have "mset (map ?key (concat (map g completion_order)))
               = mset (map ?key (concat (map g [0..<m])))"
    by (simp only: mset_map)
  also have "map ?key (concat (map g [0..<m])) = concat (map (\<lambda>k. map ?key (g k)) [0..<m])"
    by (simp add: map_concat comp_def)
  also have "\<dots> = concat (map (\<lambda>k. map ?tkey (batch k)) [0..<m])"
    using each by simp
  also have "\<dots> = map ?tkey (concat (map batch [0..<m]))"
    by (simp add: map_concat comp_def)
  also have "\<dots> = ?grid"
    unfolding all by (rule tkeys)
  finally have keys: "mset (map ?key (concat (map g completion_order))) = mset ?grid" .
  then have "size (mset (map ?key (concat (map g completion_order)))) = size (mset ?grid)"
    by (rule arg_cong)
  then have "length (concat (map g completion_order)) = length ?grid"
    by (simp only: size_mset length_map)
  then have len: "length (concat (map g completion_order))
                    = length cycle_depths * length circuits"
    by (simp only: length_concat_grid)
  have "card (\<Union>circuit\<in>set circuits. all_qubits circuit) = 2"
    using verify by (simp add: verify_Inr_iff)
  then have "circuits \<noteq> []"
    by auto
  with ne have "0 < length cycle_depths * length circuits"
    by simp
  with len have "0 < length (concat (map g completion_order))"
    by simp
  then have nonempty: "concat (map g completion_order) \<noteq> []"
    by simp
  have frame: "DataFrame_set_index (concat (map g completion_order))
                 = Inr (concat (map g completion_order))"
    using nonempty by (simp add: DataFrame_set_index_def)
  have result: "sample_2q_xeb_circuits run_batch completion_order circuits cycle_depths
                  repetitions batch_size = Inr (concat (map g completion_order))"
    by (simp only: sample_2q_xeb_circuits_def verify sum.case list.case tasks Let_def starts
          batched collected append_Nil frame)
  from result keys len show ?thesis
    by (intro exI [of _ "concat (map g completion_order)"] conjI)
qed

subsection \<open>Claim C3: tasks and records of the sampling scheduler\<close>

lemma sample_tasks_prefix:
  assumes fits: "\<forall>d\<in>set cycle_depths.
                   0 \<le> d \<and> (\<forall>c\<in>set circuits. 2 * d + 1 \<le> int (length c))"
  shows "sample_tasks q0 q1 circuits cycle_depths =
           Inr (concat (map (\<lambda>d. map (\<lambda>i. \<lparr>task_cycle_depth = d, task_circuit_i = i,
                                   prepared_circuit =
                                     take (nat (2 * d + 1)) (circuits ! i)
                                       @ [[measure q0 q1]]\<rparr>)
                                 [0..<length circuits]) cycle_depths))"
proof -
  let ?mk = "\<lambda>d (i, c). \<lparr>task_cycle_depth = d, task_circuit_i = i,
                prepared_circuit = circuit_add (py_slice_to c (2 * d + 1)) (measure q0 q1)\<rparr>"
  let ?mk' = "\<lambda>d i. \<lparr>task_cycle_depth = d, task_circuit_i = i,
                prepared_circuit = take (nat (2 * d + 1)) (circuits ! i) @ [[measure q0 q1]]\<rparr>"
  have fits': "\<forall>d\<in>set cycle_depths. \<forall>c\<in>set circuits. 2 * d + 1 \<le> int (length c)"
    using fits by blast
  have row: "map (?mk d) (enumerate_list circuits) = map (?mk' d) [0..<length circuits]"
    if d: "d \<in> set cycle_depths" for d
  proof (rule nth_equalityI)
    show "length (map (?mk d) (enumerate_list circuits))
            = length (map (?mk' d) [0..<length circuits])"
      by (simp add: length_enumerate_list)
    fix i assume "i < length (map (?mk d) (enumerate_list circuits))"
    then have i: "i < length circuits"
      by (simp add: length_enumerate_list)
    then have "circuits ! i \<in> set circuits"
      by simp
    with fits d have "0 \<le> 2 * d + 1" "2 * d + 1 \<le> int (length (circuits ! i))"
      by auto
    then have "py_slice_to (circuits ! i) (2 * d + 1) = take (nat (2 * d + 1)) (circuits ! i)"
      by (rule py_slice_to_prefix)
    then show "map (?mk d) (enumerate_list circuits) ! i
                 = map (?mk' d) [0..<length circuits] ! i"
      using i by (simp add: length_enumerate_list enumerate_list_nth circuit_add_def)
  qed
  have "map (\<lambda>d. map (?mk d) (enumerate_list circuits)) cycle_depths
          = map (\<lambda>d. map (?mk' d) [0..<length circuits]) cycle_depths"
    by (rule map_cong [OF refl]) (rule row)
  then show ?thesis
    unfolding sample_tasks_fits [OF fits'] by (simp only:)
qed

text \<open>
  Claim C3, as the code has it. A library that does not pass the verification of its two
  qubits makes \<^verbatim>\<open>sample_2q_xeb_circuits\<close> fail with \<^verbatim>\<open>ValueError\<close>, before any task is
  built. For a library that passes it, with its qubits \<open>q0\<close> and \<open>q1\<close>:
  \<^item> the function fails with an assertion error when some requested cycle depth \<open>d\<close>
    and some circuit satisfy \<open>2 d + 1 >\<close> the circuit's number of layers;
  \<^item> when every requested depth is non-negative and fits every circuit, it creates
    exactly one task per pair of a cycle depth and a circuit index, in this order: the
    circuit truncated to its first \<open>2 d + 1\<close> layers, with a terminal measurement of the
    two qubits appended;
  \<^item> then, with at least one requested depth, a positive batch size, a sampler that
    returns one result per submitted circuit, and the batches completing in any order,
    it produces exactly \<open>len(circuits) \<times> len(cycle_depths)\<close> records, keyed by
    \<open>(circuit_i, cycle_depth)\<close>, one for each task.
\<close>

theorem sample_2q_tasks_and_records:
  fixes circuits :: "('g, 'q::linorder) circuit list"
  shows
  "((\<nexists>qs. verify_and_get_two_qubits_from_circuits circuits = Inr qs) \<longrightarrow>
      sample_2q_xeb_circuits run_batch completion_order circuits cycle_depths repetitions
        batch_size = Inl ValueError)
   \<and> (verify_and_get_two_qubits_from_circuits circuits = Inr [q0, q1] \<longrightarrow>
       ((\<exists>d\<in>set cycle_depths. \<exists>c\<in>set circuits. 2 * d + 1 > int (length c)) \<longrightarrow>
          sample_2q_xeb_circuits run_batch completion_order circuits cycle_depths repetitions
            batch_size = Inl AssertionError)
     \<and> ((\<forall>d\<in>set cycle_depths. 0 \<le> d \<and> (\<forall>c\<in>set circuits. 2 * d + 1 \<le> int (length c)))
        \<longrightarrow>
          sample_tasks q0 q1 circuits cycle_depths =
            Inr (concat (map (\<lambda>d. map (\<lambda>i. \<lparr>task_cycle_depth = d, task_circuit_i = i,
                                    prepared_circuit =
                                      take (nat (2 * d + 1)) (circuits ! i)
                                        @ [[measure q0 q1]]\<rparr>)
                                  [0..<length circuits]) cycle_depths))
        \<and> (cycle_depths \<noteq> [] \<and> 0 < batch_size
             \<and> (\<forall>cs. \<exists>results. run_batch cs repetitions = Inr results
                    \<and> length results = length cs
                    \<and> (\<forall>nested\<in>set results. length nested = 1))
             \<and> mset completion_order
                 = mset [0..<nat ((int (length cycle_depths * length circuits) + batch_size - 1)
                                   div batch_size)]
           \<longrightarrow>
             (\<exists>records.
                 sample_2q_xeb_circuits run_batch completion_order circuits cycle_depths
                   repetitions batch_size = Inr records
               \<and> mset (map (\<lambda>r. (circuit_i r, cycle_depth r)) records)
                   = mset (concat (map (\<lambda>d. map (\<lambda>i. (i, d)) [0..<length circuits])
                                     cycle_depths))
               \<and> length records = length circuits * length cycle_depths))))"
proof (intro conjI impI)
  assume "\<nexists>qs. verify_and_get_two_qubits_from_circuits circuits = Inr qs"
  then have "verify_and_get_two_qubits_from_circuits circuits = Inl ValueError"
    by (simp add: verify_Inr_iff verify_Inl_iff)
  then show "sample_2q_xeb_circuits run_batch completion_order circuits cycle_depths
               repetitions batch_size = Inl ValueError"
    by (simp add: sample_2q_xeb_circuits_def)
next
  assume verify: "verify_and_get_two_qubits_from_circuits circuits = Inr [q0, q1]"
    and "\<exists>d\<in>set cycle_depths. \<exists>c\<in>set circuits. 2 * d + 1 > int (length c)"
  then have "sample_tasks q0 q1 circuits cycle_depths = Inl AssertionError"
    by (intro sample_tasks_short)
  then show "sample_2q_xeb_circuits run_batch completion_order circuits cycle_depths
               repetitions batch_size = Inl AssertionError"
    by (simp only: sample_2q_xeb_circuits_def verify sum.case list.case)
next
  assume "\<forall>d\<in>set cycle_depths. 0 \<le> d \<and> (\<forall>c\<in>set circuits. 2 * d + 1 \<le> int (length c))"
  then show "sample_tasks q0 q1 circuits cycle_depths =
            Inr (concat (map (\<lambda>d. map (\<lambda>i. \<lparr>task_cycle_depth = d, task_circuit_i = i,
                                    prepared_circuit =
                                      take (nat (2 * d + 1)) (circuits ! i)
                                        @ [[measure q0 q1]]\<rparr>)
                                  [0..<length circuits]) cycle_depths))"
    by (rule sample_tasks_prefix)
next
  assume verify: "verify_and_get_two_qubits_from_circuits circuits = Inr [q0, q1]"
    and fits: "\<forall>d\<in>set cycle_depths.
                 0 \<le> d \<and> (\<forall>c\<in>set circuits. 2 * d + 1 \<le> int (length c))"
    and h: "cycle_depths \<noteq> [] \<and> 0 < batch_size
             \<and> (\<forall>cs. \<exists>results. run_batch cs repetitions = Inr results
                    \<and> length results = length cs
                    \<and> (\<forall>nested\<in>set results. length nested = 1))
             \<and> mset completion_order
                 = mset [0..<nat ((int (length cycle_depths * length circuits) + batch_size - 1)
                                   div batch_size)]"
  from fits have fits': "\<forall>d\<in>set cycle_depths. \<forall>c\<in>set circuits. 2 * d + 1 \<le> int (length c)"
    by blast
  from h have ne: "cycle_depths \<noteq> []"
    by (rule conjunct1)
  from h have h': "0 < batch_size
             \<and> (\<forall>cs. \<exists>results. run_batch cs repetitions = Inr results
                    \<and> length results = length cs
                    \<and> (\<forall>nested\<in>set results. length nested = 1))
             \<and> mset completion_order
                 = mset [0..<nat ((int (length cycle_depths * length circuits) + batch_size - 1)
                                   div batch_size)]"
    by (rule conjunct2)
  from h' have positive: "0 < batch_size"
    and sampler: "\<forall>cs. \<exists>results. run_batch cs repetitions = Inr results
                    \<and> length results = length cs
                    \<and> (\<forall>nested\<in>set results. length nested = 1)"
    and perm: "mset completion_order
                 = mset [0..<nat ((int (length cycle_depths * length circuits) + batch_size - 1)
                                   div batch_size)]"
    by (rule conjunct1, rule conjunct2 [THEN conjunct1], rule conjunct2 [THEN conjunct2])
  from sample_2q_records [where run_batch = run_batch and repetitions = repetitions,
         OF verify ne fits' sampler positive perm]
  show "\<exists>records.
          sample_2q_xeb_circuits run_batch completion_order circuits cycle_depths
            repetitions batch_size = Inr records
        \<and> mset (map (\<lambda>r. (circuit_i r, cycle_depth r)) records)
            = mset (concat (map (\<lambda>d. map (\<lambda>i. (i, d)) [0..<length circuits]) cycle_depths))
        \<and> length records = length circuits * length cycle_depths"
    by (simp only: mult.commute [of "length cycle_depths"])
qed

theorem sample_2q_tasks_and_records_witness:
  "verify_and_get_two_qubits_from_circuits
      [[[GateOperation (Gate (0::nat)) [0::nat], GateOperation (Gate 1) [1]],
        [GateOperation (Gate 2) [0, 1]],
        [GateOperation (Gate 3) [0], GateOperation (Gate 4) [1]]],
       [[GateOperation (Gate 5) [0], GateOperation (Gate 6) [1]],
        [GateOperation (Gate 2) [0, 1]],
        [GateOperation (Gate 7) [0], GateOperation (Gate 8) [1]]]] = Inr [0, 1]
   \<and> (\<exists>tasks. sample_tasks 0 1
        [[[GateOperation (Gate (0::nat)) [0::nat], GateOperation (Gate 1) [1]],
          [GateOperation (Gate 2) [0, 1]],
          [GateOperation (Gate 3) [0], GateOperation (Gate 4) [1]]],
         [[GateOperation (Gate 5) [0], GateOperation (Gate 6) [1]],
          [GateOperation (Gate 2) [0, 1]],
          [GateOperation (Gate 7) [0], GateOperation (Gate 8) [1]]]] [0, 1] = Inr tasks
        \<and> length tasks = 4)
   \<and> (\<exists>records. sample_2q_xeb_circuits (\<lambda>cs reps. Inr (map (\<lambda>c. [[0, 1, 1, 3]]) cs)) [1, 0]
        [[[GateOperation (Gate (0::nat)) [0::nat], GateOperation (Gate 1) [1]],
          [GateOperation (Gate 2) [0, 1]],
          [GateOperation (Gate 3) [0], GateOperation (Gate 4) [1]]],
         [[GateOperation (Gate 5) [0], GateOperation (Gate 6) [1]],
          [GateOperation (Gate 2) [0, 1]],
          [GateOperation (Gate 7) [0], GateOperation (Gate 8) [1]]]] [0, 1] 100 3 = Inr records
        \<and> mset (map (\<lambda>r. (circuit_i r, cycle_depth r)) records)
            = mset [(0, 0), (1, 0), (0, 1), (1, 1)]
        \<and> length records = 4)
   \<and> sample_2q_xeb_circuits (\<lambda>cs reps. Inr (map (\<lambda>c. [[0, 1, 1, 3]]) cs)) [1, 0]
        [[[GateOperation (Gate (0::nat)) [0::nat], GateOperation (Gate 1) [1]],
          [GateOperation (Gate 2) [0, 1]],
          [GateOperation (Gate 3) [0], GateOperation (Gate 4) [1]]],
         [[GateOperation (Gate 5) [0], GateOperation (Gate 6) [1]],
          [GateOperation (Gate 2) [0, 1]],
          [GateOperation (Gate 7) [0], GateOperation (Gate 8) [1]]]] [0, 2] 100 3
       = Inl AssertionError"
proof -
  let ?lib = "[[[GateOperation (Gate (0::nat)) [0::nat], GateOperation (Gate 1) [1]],
        [GateOperation (Gate 2) [0, 1]],
        [GateOperation (Gate 3) [0], GateOperation (Gate 4) [1]]],
       [[GateOperation (Gate 5) [0], GateOperation (Gate 6) [1]],
        [GateOperation (Gate 2) [0, 1]],
        [GateOperation (Gate 7) [0], GateOperation (Gate 8) [1]]]]"
  let ?run = "\<lambda>(cs :: (nat, nat) circuit list) (reps :: int).
                (Inr (map (\<lambda>c. [[0, 1, 1, 3]]) cs) :: error + nat list list list)"
  have qubits: "(\<Union>circuit\<in>set ?lib. all_qubits circuit) = {0, 1}"
    by (auto simp: all_qubits_def)
  have v: "verify_and_get_two_qubits_from_circuits ?lib = Inr [0, 1]"
    unfolding verify_cases qubits by (simp add: sorted_list_of_pair)
  have fits: "\<forall>d\<in>set [0, 1]. 0 \<le> d \<and> (\<forall>c\<in>set ?lib. 2 * d + 1 \<le> int (length c))"
    by simp
  have short: "\<exists>d\<in>set [0, 2]. \<exists>c\<in>set ?lib. 2 * d + 1 > int (length c)"
    by simp
  have sampler: "\<forall>cs. \<exists>results. ?run cs 100 = Inr results \<and> length results = length cs
                   \<and> (\<forall>nested\<in>set results. length nested = 1)"
    by simp
  have perm: "mset [1, 0]
                = mset [0..<nat ((int (length [0, 1 :: int] * length ?lib) + 3 - 1) div 3)]"
  proof -
    have "nat ((int (length [0, 1 :: int] * length ?lib) + 3 - 1) div 3) = Suc (Suc 0)"
      by simp
    then have "[0..<nat ((int (length [0, 1 :: int] * length ?lib) + 3 - 1) div 3)] = [0, 1]"
      by (simp only: upt_Suc upt_0 if_True le0 append_Nil append_Cons One_nat_def)
    then show ?thesis
      by (simp only: mset.simps add_mset_commute)
  qed
  note ok = sample_2q_tasks_and_records [of ?lib ?run "[1, 0]" "[0, 1]" 100 3 0 1,
      THEN conjunct2, THEN mp, OF v, THEN conjunct2, THEN mp, OF fits]
  note bad = sample_2q_tasks_and_records [of ?lib ?run "[1, 0]" "[0, 2]" 100 3 0 1,
      THEN conjunct2, THEN mp, OF v, THEN conjunct1, THEN mp, OF short]
  from ok [THEN conjunct1] have tasks: "\<exists>tasks. sample_tasks 0 1 ?lib [0, 1] = Inr tasks
                                          \<and> length tasks = 4"
    by simp
  have "(0::int) < 3" and "[0, 1 :: int] \<noteq> []"
    by simp_all
  from ok [THEN conjunct2, THEN mp,
           OF conjI [OF this(2) conjI [OF this(1) conjI [OF sampler perm]]]]
  have records: "\<exists>records. sample_2q_xeb_circuits ?run [1, 0] ?lib [0, 1] 100 3 = Inr records
        \<and> mset (map (\<lambda>r. (circuit_i r, cycle_depth r)) records)
            = mset [(0, 0), (1, 0), (0, 1), (1, 1)]
        \<and> length records = 4"
    by (simp add: eval_nat_numeral)
  from v tasks records bad show ?thesis
    by (intro conjI)
qed

text \<open>
  The claim as the specification words it, for every circuit library and cycle-depth
  list, fails in four places.
  \<^item> A library that does not pass the verification: the only circuit has one layer, on
    one qubit, so the requested cycle depth 1 needs more layers than it has, and yet the
    failure is the \<^verbatim>\<open>ValueError\<close> of the verification, not an assertion error.
  \<^item> An empty list of cycle depths: every requested depth fits, there is no task, and
    the function raises \<^verbatim>\<open>KeyError\<close> from the empty data frame instead of producing a
    table of no records.
  \<^item> A negative cycle depth: the depth \<open>-1\<close> passes the assertion on a circuit of three
    layers, and the task holds the circuit without its last layer, which is not the
    circuit truncated to its first \<open>2 d + 1\<close> layers.
  \<^item> A batch size of zero: \<^verbatim>\<open>range\<close> raises \<^verbatim>\<open>ValueError\<close>, and no record is produced.
\<close>

theorem sample_2q_assertion_counterexample:
  "2 * (1::int) + 1 > int (length [[GateOperation (Gate (0::nat)) [0::nat]]])
   \<and> sample_2q_xeb_circuits (\<lambda>cs reps. Inr (map (\<lambda>c. [[0, 1, 1, 3]]) cs)) [0]
        [[[GateOperation (Gate (0::nat)) [0::nat]]]] [1] 100 9
       = Inl ValueError
   \<and> sample_2q_xeb_circuits (\<lambda>cs reps. Inr (map (\<lambda>c. [[0, 1, 1, 3]]) cs)) [0]
        [[[GateOperation (Gate (0::nat)) [0::nat]]]] [1] 100 9
       \<noteq> Inl AssertionError
   \<and> verify_and_get_two_qubits_from_circuits
        [[[GateOperation (Gate (0::nat)) [0::nat], GateOperation (Gate 1) [1]],
          [GateOperation (Gate 2) [0, 1]],
          [GateOperation (Gate 3) [0], GateOperation (Gate 4) [1]]]] = Inr [0, 1]
   \<and> sample_2q_xeb_circuits (\<lambda>cs reps. Inr (map (\<lambda>c. [[0, 1, 1, 3]]) cs)) []
        [[[GateOperation (Gate (0::nat)) [0::nat], GateOperation (Gate 1) [1]],
          [GateOperation (Gate 2) [0, 1]],
          [GateOperation (Gate 3) [0], GateOperation (Gate 4) [1]]]] [] 100 9
       = Inl KeyError
   \<and> 2 * (- 1 :: int) + 1 \<le> int (length
        [[GateOperation (Gate (0::nat)) [0::nat], GateOperation (Gate 1) [1]],
         [GateOperation (Gate 2) [0, 1]],
         [GateOperation (Gate 3) [0], GateOperation (Gate 4) [1]]])
   \<and> sample_tasks 0 1
        [[[GateOperation (Gate (0::nat)) [0::nat], GateOperation (Gate 1) [1]],
          [GateOperation (Gate 2) [0, 1]],
          [GateOperation (Gate 3) [0], GateOperation (Gate 4) [1]]]] [- 1]
       = Inr [\<lparr>task_cycle_depth = - 1, task_circuit_i = 0,
               prepared_circuit =
                 [[GateOperation (Gate 0) [0], GateOperation (Gate 1) [1]],
                  [GateOperation (Gate 2) [0, 1]],
                  [measure 0 1]]\<rparr>]
   \<and> take (nat (2 * (- 1) + 1))
        [[GateOperation (Gate (0::nat)) [0::nat], GateOperation (Gate 1) [1]],
         [GateOperation (Gate 2) [0, 1]],
         [GateOperation (Gate 3) [0], GateOperation (Gate 4) [1]]] = []
   \<and> sample_2q_xeb_circuits (\<lambda>cs reps. Inr (map (\<lambda>c. [[0, 1, 1, 3]]) cs)) [0]
        [[[GateOperation (Gate (0::nat)) [0::nat], GateOperation (Gate 1) [1]],
          [GateOperation (Gate 2) [0, 1]],
          [GateOperation (Gate 3) [0], GateOperation (Gate 4) [1]]]] [0, 1] 100 0
       = Inl ValueError"
proof -
  let ?c3 = "[[GateOperation (Gate (0::nat)) [0::nat], GateOperation (Gate 1) [1]],
              [GateOperation (Gate 2) [0, 1]],
              [GateOperation (Gate 3) [0], GateOperation (Gate 4) [1]]]"
  let ?run = "\<lambda>(cs :: (nat, nat) circuit list) (reps :: int).
                (Inr (map (\<lambda>c. [[0, 1, 1, 3]]) cs) :: error + nat list list list)"
  have qubits: "(\<Union>circuit\<in>set [?c3]. all_qubits circuit) = {0, 1}"
    by (auto simp: all_qubits_def)
  have v: "verify_and_get_two_qubits_from_circuits [?c3] = Inr [0, 1]"
    unfolding verify_cases qubits by (simp add: sorted_list_of_pair)
  have unverified: "sample_2q_xeb_circuits ?run [0] [[[GateOperation (Gate (0::nat)) [0::nat]]]]
                      [1] 100 9 = Inl ValueError"
    by (simp add: sample_2q_xeb_circuits_def verify_cases all_qubits_def)
  have no_tasks: "sample_tasks 0 1 [?c3] [] = Inr []"
    by simp
  have no_batches: "py_range 0 (int (length ([] :: (nat, nat) Sample2qXEBTask list))) 9
                      = Inr []"
    by (simp add: py_range_def)
  have empty: "sample_2q_xeb_circuits ?run [] [?c3] [] 100 9 = Inl KeyError"
    by (simp only: sample_2q_xeb_circuits_def v sum.case list.case no_tasks Let_def
          no_batches list.map collect_completed.simps DataFrame_set_index_def simp_thms
          if_True)
  have negative: "sample_tasks 0 1 [?c3] [- 1]
       = Inr [\<lparr>task_cycle_depth = - 1, task_circuit_i = 0,
               prepared_circuit =
                 [[GateOperation (Gate 0) [0], GateOperation (Gate 1) [1]],
                  [GateOperation (Gate 2) [0, 1]],
                  [measure 0 1]]\<rparr>]"
    by (simp add: enumerate_list_def py_slice_to_def py_slice_bound_def circuit_add_def)
  have tasks: "sample_tasks 0 1 [?c3] [0, 1] \<noteq> Inl AssertionError
               \<and> (\<exists>tasks. sample_tasks 0 1 [?c3] [0, 1] = Inr tasks)"
    by (simp add: enumerate_list_def)
  then obtain tasks where t: "sample_tasks 0 1 [?c3] [0, 1] = Inr tasks"
    by blast
  have zero: "sample_2q_xeb_circuits ?run [0] [?c3] [0, 1] 100 0 = Inl ValueError"
    by (simp only: sample_2q_xeb_circuits_def v sum.case list.case t Let_def py_range_def
          simp_thms if_True)
  from unverified empty negative zero v show ?thesis
    by simp
qed

subsection \<open>Claim C10: duplicated cycle depths\<close>

lemma concat_rows_product:
  "concat (map (\<lambda>a. map (\<lambda>b. (a, b)) ys) xs) = List.product xs ys"
  by (induction xs) simp_all

lemma card_set_less_length:
  assumes "\<not> distinct xs"
  shows "card (set xs) < length xs"
proof -
  have "card (set xs) \<le> length xs"
    by (rule card_length)
  moreover have "card (set xs) \<noteq> length xs"
    using assms card_distinct by blast
  ultimately show ?thesis by simp
qed

text \<open>
  Claim C10. The simulation scheduler removes duplicates from the requested cycle
  depths. For every library of at least one circuit and every non-empty list of cycle
  depths whose entries all fit every circuit (each a non-negative depth \<open>d\<close> with \<open>2 d + 1\<close> at most the
  number of layers), and with a simulator that yields one state per layer,
  \<^verbatim>\<open>simulate_2q_xeb_circuits\<close> emits exactly one record per pair of a circuit index and a
  distinct cycle depth, even when the list holds a depth more than once. The sampling
  scheduler creates one task, hence one record, per entry of the list and circuit. So
  when a depth is duplicated, the simulated table has fewer rows than the sampled one.
\<close>

theorem simulation_deduplicates_depths:
  fixes circuits :: "('g, 'q::linorder) circuit list"
  assumes ne: "cycle_depths \<noteq> []"
    and nonempty: "circuits \<noteq> []"
    and fits: "\<forall>d\<in>set cycle_depths.
                 0 \<le> d \<and> (\<forall>c\<in>set circuits. 2 * d + 1 \<le> int (length c))"
    and sim: "\<forall>circuit\<in>set circuits. \<exists>step_results.
                 simulate_moment_steps circuit param_resolver = Inr step_results
               \<and> length step_results = length circuit"
  shows
  "(\<exists>simulated.
       simulate_2q_xeb_circuits simulate_moment_steps circuits cycle_depths param_resolver
         = Inr simulated
     \<and> map (\<lambda>r. (circuit_i r, cycle_depth r)) simulated
         = concat (map (\<lambda>i. map (\<lambda>d. (i, d)) (sorted_list_of_set (set cycle_depths)))
                     [0..<length circuits])
     \<and> distinct (map (\<lambda>r. (circuit_i r, cycle_depth r)) simulated)
     \<and> set (map (\<lambda>r. (circuit_i r, cycle_depth r)) simulated)
         = {0..<length circuits} \<times> set cycle_depths
     \<and> length simulated = length circuits * card (set cycle_depths)
     \<and> (\<exists>tasks.
           sample_tasks q0 q1 circuits cycle_depths = Inr tasks
         \<and> map (\<lambda>t. (task_circuit_i t, task_cycle_depth t)) tasks
             = concat (map (\<lambda>d. map (\<lambda>i. (i, d)) [0..<length circuits]) cycle_depths)
         \<and> length tasks = length circuits * length cycle_depths
         \<and> (\<not> distinct cycle_depths \<longrightarrow> length simulated < length tasks))
     \<and> (verify_and_get_two_qubits_from_circuits circuits = Inr [q0, q1]
          \<and> 0 < batch_size
          \<and> (\<forall>cs. \<exists>results. run_batch cs repetitions = Inr results
                 \<and> length results = length cs
                 \<and> (\<forall>nested\<in>set results. length nested = 1))
          \<and> mset completion_order
              = mset [0..<nat ((int (length cycle_depths * length circuits) + batch_size - 1)
                                div batch_size)]
         \<longrightarrow>
          (\<exists>sampled.
              sample_2q_xeb_circuits run_batch completion_order circuits cycle_depths
                repetitions batch_size = Inr sampled
            \<and> length sampled = length circuits * length cycle_depths
            \<and> (\<not> distinct cycle_depths \<longrightarrow> length simulated < length sampled))))"
proof -
  let ?key = "\<lambda>r::simulated_record. (circuit_i r, cycle_depth r)"
  let ?sorted = "sorted_list_of_set (set cycle_depths)"
  let ?n = "length circuits"
  from simulate_2q_keys [where simulate_moment_steps = simulate_moment_steps
         and param_resolver = param_resolver, OF ne nonempty fits sim]
  obtain simulated where
    res: "simulate_2q_xeb_circuits simulate_moment_steps circuits cycle_depths param_resolver
            = Inr simulated"
    and keys: "map ?key simulated = concat (map (\<lambda>i. map (\<lambda>d. (i, d)) ?sorted) [0..<?n])"
    by blast
  have prod: "map ?key simulated = List.product [0..<?n] ?sorted"
    unfolding keys by (rule concat_rows_product)
  have dist: "distinct (map ?key simulated)"
    unfolding prod by (intro distinct_product) simp_all
  have set: "set (map ?key simulated) = {0..<?n} \<times> set cycle_depths"
    unfolding prod by simp
  have "length (map ?key simulated) = ?n * length ?sorted"
    unfolding prod by (simp add: length_product)
  then have len: "length simulated = ?n * card (set cycle_depths)"
    by (simp add: length_sorted_list_of_set)
  have fits': "\<forall>d\<in>set cycle_depths. \<forall>c\<in>set circuits. 2 * d + 1 \<le> int (length c)"
    using fits by blast
  obtain tasks where tasks: "sample_tasks q0 q1 circuits cycle_depths = Inr tasks"
    using sample_tasks_fits [OF fits'] by blast
  have tkeys: "map (\<lambda>t. (task_circuit_i t, task_cycle_depth t)) tasks
                 = concat (map (\<lambda>d. map (\<lambda>i. (i, d)) [0..<?n]) cycle_depths)"
    using fits' tasks by (rule sample_task_keys)
  have "length (map (\<lambda>t. (task_circuit_i t, task_cycle_depth t)) tasks)
          = length cycle_depths * ?n"
    unfolding tkeys by (rule length_concat_grid)
  then have tlen: "length tasks = ?n * length cycle_depths"
    by (simp add: mult.commute)
  have less: "?n * card (set cycle_depths) < ?n * length cycle_depths"
    if "\<not> distinct cycle_depths"
    using card_set_less_length [OF that] nonempty by simp
  have task_part: "\<exists>tasks.
           sample_tasks q0 q1 circuits cycle_depths = Inr tasks
         \<and> map (\<lambda>t. (task_circuit_i t, task_cycle_depth t)) tasks
             = concat (map (\<lambda>d. map (\<lambda>i. (i, d)) [0..<?n]) cycle_depths)
         \<and> length tasks = ?n * length cycle_depths
         \<and> (\<not> distinct cycle_depths \<longrightarrow> length simulated < length tasks)"
    using tasks tkeys tlen less len by (intro exI [of _ tasks]) simp
  have sample_part: "\<exists>sampled.
              sample_2q_xeb_circuits run_batch completion_order circuits cycle_depths
                repetitions batch_size = Inr sampled
            \<and> length sampled = ?n * length cycle_depths
            \<and> (\<not> distinct cycle_depths \<longrightarrow> length simulated < length sampled)"
    if h: "verify_and_get_two_qubits_from_circuits circuits = Inr [q0, q1]
          \<and> 0 < batch_size
          \<and> (\<forall>cs. \<exists>results. run_batch cs repetitions = Inr results
                 \<and> length results = length cs
                 \<and> (\<forall>nested\<in>set results. length nested = 1))
          \<and> mset completion_order
              = mset [0..<nat ((int (length cycle_depths * ?n) + batch_size - 1)
                                div batch_size)]"
  proof -
    from h have verify: "verify_and_get_two_qubits_from_circuits circuits = Inr [q0, q1]"
      by (rule conjunct1)
    from h have positive: "0 < batch_size"
      by (rule conjunct2 [THEN conjunct1])
    from h have sampler: "\<forall>cs. \<exists>results. run_batch cs repetitions = Inr results
                 \<and> length results = length cs
                 \<and> (\<forall>nested\<in>set results. length nested = 1)"
      by (rule conjunct2 [THEN conjunct2, THEN conjunct1])
    from h have perm: "mset completion_order
              = mset [0..<nat ((int (length cycle_depths * ?n) + batch_size - 1)
                                div batch_size)]"
      by (rule conjunct2 [THEN conjunct2, THEN conjunct2])
    from sample_2q_records [where run_batch = run_batch and repetitions = repetitions,
           OF verify ne fits' sampler positive perm]
    obtain sampled where
      s: "sample_2q_xeb_circuits run_batch completion_order circuits cycle_depths
            repetitions batch_size = Inr sampled"
      and l: "length sampled = length cycle_depths * ?n"
      by blast
    have "length simulated < length sampled" if "\<not> distinct cycle_depths"
      using less [OF that] by (simp add: len l mult.commute)
    with s l show ?thesis
      by (intro exI [of _ sampled]) (simp add: mult.commute)
  qed
  from res keys dist set len task_part sample_part show ?thesis
    by (intro exI [of _ simulated] conjI impI)
qed

theorem simulation_deduplicates_depths_witness:
  "\<exists>simulated sampled.
      simulate_2q_xeb_circuits (\<lambda>circuit resolver. Inr (map (\<lambda>moment. [1, 0, 0, 0]) circuit))
        [[[GateOperation (Gate (0::nat)) [0::nat], GateOperation (Gate 1) [1]],
          [GateOperation (Gate 2) [0, 1]],
          [GateOperation (Gate 3) [0], GateOperation (Gate 4) [1]]],
         [[GateOperation (Gate 5) [0], GateOperation (Gate 6) [1]],
          [GateOperation (Gate 2) [0, 1]],
          [GateOperation (Gate 7) [0], GateOperation (Gate 8) [1]]]] [1, 0, 1] ()
        = Inr simulated
    \<and> map (\<lambda>r. (circuit_i r, cycle_depth r)) simulated = [(0, 0), (0, 1), (1, 0), (1, 1)]
    \<and> sample_2q_xeb_circuits (\<lambda>cs reps. Inr (map (\<lambda>c. [[0, 1, 1, 3]]) cs)) [1, 0]
        [[[GateOperation (Gate (0::nat)) [0::nat], GateOperation (Gate 1) [1]],
          [GateOperation (Gate 2) [0, 1]],
          [GateOperation (Gate 3) [0], GateOperation (Gate 4) [1]]],
         [[GateOperation (Gate 5) [0], GateOperation (Gate 6) [1]],
          [GateOperation (Gate 2) [0, 1]],
          [GateOperation (Gate 7) [0], GateOperation (Gate 8) [1]]]] [1, 0, 1] 100 4
        = Inr sampled
    \<and> length simulated = 4 \<and> length sampled = 6"
proof -
  let ?lib = "[[[GateOperation (Gate (0::nat)) [0::nat], GateOperation (Gate 1) [1]],
        [GateOperation (Gate 2) [0, 1]],
        [GateOperation (Gate 3) [0], GateOperation (Gate 4) [1]]],
       [[GateOperation (Gate 5) [0], GateOperation (Gate 6) [1]],
        [GateOperation (Gate 2) [0, 1]],
        [GateOperation (Gate 7) [0], GateOperation (Gate 8) [1]]]]"
  let ?run = "\<lambda>(cs :: (nat, nat) circuit list) (reps :: int).
                (Inr (map (\<lambda>c. [[0, 1, 1, 3]]) cs) :: error + nat list list list)"
  let ?sim = "\<lambda>(circuit :: (nat, nat) circuit) (resolver :: unit).
                (Inr (map (\<lambda>moment. [1, 0, 0, 0]) circuit) :: error + complex list list)"
  let ?depths = "[1, 0, 1 :: int]"
  have ne: "?depths \<noteq> []"
    by simp
  have nonempty: "?lib \<noteq> []"
    by simp
  have fits: "\<forall>d\<in>set ?depths. 0 \<le> d \<and> (\<forall>c\<in>set ?lib. 2 * d + 1 \<le> int (length c))"
    by simp
  have sim: "\<forall>circuit\<in>set ?lib. \<exists>step_results.
               ?sim circuit () = Inr step_results \<and> length step_results = length circuit"
    by simp
  have qubits: "(\<Union>circuit\<in>set ?lib. all_qubits circuit) = {0, 1}"
    by (auto simp: all_qubits_def)
  have v: "verify_and_get_two_qubits_from_circuits ?lib = Inr [0, 1]"
    unfolding verify_cases qubits by (simp add: sorted_list_of_pair)
  have sampler: "\<forall>cs. \<exists>results. ?run cs 100 = Inr results \<and> length results = length cs
                   \<and> (\<forall>nested\<in>set results. length nested = 1)"
    by simp
  have perm: "mset [1, 0]
                = mset [0..<nat ((int (length ?depths * length ?lib) + 4 - 1) div 4)]"
  proof -
    have "nat ((int (length ?depths * length ?lib) + 4 - 1) div 4) = Suc (Suc 0)"
      by simp
    then have "[0..<nat ((int (length ?depths * length ?lib) + 4 - 1) div 4)] = [0, 1]"
      by (simp only: upt_Suc upt_0 if_True le0 append_Nil append_Cons One_nat_def)
    then show ?thesis
      by (simp only: mset.simps add_mset_commute)
  qed
  have sorted: "sorted_list_of_set (set ?depths) = [0, 1]"
    unfolding sorted_list_of_set_sort_remdups by simp
  have "set ?depths = {0, 1}"
    by auto
  then have card: "card (set ?depths) = 2"
    by simp
  have dup: "\<not> distinct ?depths"
    by simp
  have "(0::int) < 4"
    by simp
  note hyps = conjI [OF v conjI [OF this conjI [OF sampler perm]]]
  from simulation_deduplicates_depths [where simulate_moment_steps = ?sim
         and param_resolver = "()" and run_batch = ?run and repetitions = 100
         and completion_order = "[1, 0]" and batch_size = 4 and ?q0.0 = 0 and ?q1.0 = 1,
         OF ne nonempty fits sim]
  obtain simulated where
    a: "simulate_2q_xeb_circuits ?sim ?lib ?depths () = Inr simulated"
    and b: "map (\<lambda>r. (circuit_i r, cycle_depth r)) simulated
              = concat (map (\<lambda>i. map (\<lambda>d. (i, d)) (sorted_list_of_set (set ?depths)))
                          [0..<length ?lib])"
    and c: "length simulated = length ?lib * card (set ?depths)"
    and d: "verify_and_get_two_qubits_from_circuits ?lib = Inr [0, 1]
          \<and> 0 < (4::int)
          \<and> (\<forall>cs. \<exists>results. ?run cs 100 = Inr results
                 \<and> length results = length cs
                 \<and> (\<forall>nested\<in>set results. length nested = 1))
          \<and> mset [1, 0]
              = mset [0..<nat ((int (length ?depths * length ?lib) + 4 - 1) div 4)]
         \<longrightarrow>
          (\<exists>sampled.
              sample_2q_xeb_circuits ?run [1, 0] ?lib ?depths 100 4 = Inr sampled
            \<and> length sampled = length ?lib * length ?depths
            \<and> (\<not> distinct ?depths \<longrightarrow> length simulated < length sampled))"
    by (elim exE conjE)
  from d [THEN mp, OF hyps] obtain sampled where
    e: "sample_2q_xeb_circuits ?run [1, 0] ?lib ?depths 100 4 = Inr sampled"
    and f: "length sampled = length ?lib * length ?depths"
    by (elim exE conjE)
  have b': "map (\<lambda>r. (circuit_i r, cycle_depth r)) simulated = [(0, 0), (0, 1), (1, 0), (1, 1)]"
    unfolding b sorted by (simp add: eval_nat_numeral)
  have c': "length simulated = 4"
    unfolding c card by simp
  have f': "length sampled = 6"
    unfolding f by simp
  from a b' e c' f' show ?thesis
    by (intro exI [of _ simulated] exI [of _ sampled] conjI)
qed

end
